theory Spec2Isabelle
  imports Main "HOL-Library.AList" "HOL-Library.Sublist"
begin

section \<open>JavaScript values as the hooks see them\<close>

text \<open>
  The two hooks (the older \<^verbatim>\<open>src/hooks/aiLocalize.ts\<close> and the newer, rich-text aware
  version of the same file) work on untyped JSON data: the changed document, the all-locale
  view of the record, and the parsed answer of the language model.  A value is therefore a
  JSON tree.  \<^verbatim>\<open>undefined\<close> is not a JSON value; a read that yields \<^verbatim>\<open>undefined\<close>
  is \<open>None\<close> of type \<open>json option\<close>.  Objects keep their keys in insertion order.
  Properties inherited from the built-in prototypes (methods such as
  \<^verbatim>\<open>toString\<close> or \<^verbatim>\<open>map\<close>) are functions, not JSON, and are not part of a value.

  A string is a sequence of code units; the code units of the model are those below 256.

  A number is a finite one: JSON has no numeral for \<^verbatim>\<open>NaN\<close> or an infinity (a numeral
  beyond the range of the doubles, which \<^verbatim>\<open>JSON.parse\<close> reads as an infinity, is left
  out).  The hooks never calculate with a number of the data: they test whether it is zero
  and they print it.  \<^verbatim>\<open>Number.prototype.toString\<close>
  prints the shortest decimal that reads back as the number, so a number is named here by
  that decimal: \<open>Decimal m e\<close> is the number that prints the digits of \<open>m\<close> at the
  scale \<open>10^e\<close>.  An integer \<open>n\<close> of magnitude below \<open>2^53\<close> is \<open>Decimal n 0\<close>.
\<close>

datatype number = Decimal (mantissa: int) (exponent: int)

datatype json =
    JNull
  | JBool bool
  | JNum number
  | JStr string
  | JArr "json list"
  | JObj "(string \<times> json) list"

text \<open>Every \<^verbatim>\<open>throw\<close> of the source is a value of this type.\<close>

datatype error =
    TypeError      \<comment> \<open>raised by the JavaScript runtime (property of null, call of a non-function)\<close>
  | ReadFailed     \<comment> \<open>\<^verbatim>\<open>payload.findByID\<close> rejected\<close>
  | LLMFailed      \<comment> \<open>\<^verbatim>\<open>callJSONModel\<close> threw: HTTP error, timeout, empty or unparsable answer\<close>
  | WriteFailed    \<comment> \<open>\<^verbatim>\<open>payload.update\<close> rejected\<close>

definition bindE :: "error + 'a \<Rightarrow> ('a \<Rightarrow> error + 'b) \<Rightarrow> error + 'b" where
  "bindE m f = (case m of Inl e \<Rightarrow> Inl e | Inr x \<Rightarrow> f x)"

text \<open>\<^verbatim>\<open>xs.map(f)\<close> where \<open>f\<close> may throw: the first exception, in element order, wins.\<close>

fun mapE :: "('a \<Rightarrow> error + 'b) \<Rightarrow> 'a list \<Rightarrow> error + 'b list" where
  "mapE f [] = Inr []"
| "mapE f (x # xs) =
     (case f x of
        Inl e \<Rightarrow> Inl e
      | Inr y \<Rightarrow> (case mapE f xs of Inl e \<Rightarrow> Inl e | Inr ys \<Rightarrow> Inr (y # ys)))"

subsection \<open>Truthiness, \<^verbatim>\<open>typeof\<close>, \<^verbatim>\<open>== null\<close>\<close>

fun truthy :: "json option \<Rightarrow> bool" where
  "truthy None = False"
| "truthy (Some JNull) = False"
| "truthy (Some (JBool b)) = b"
| "truthy (Some (JNum n)) = (mantissa n \<noteq> 0)"
| "truthy (Some (JStr s)) = (s \<noteq> [])"
| "truthy (Some (JArr xs)) = True"
| "truthy (Some (JObj kvs)) = True"

text \<open>\<^verbatim>\<open>typeof v === 'object'\<close> holds for objects, arrays and \<^verbatim>\<open>null\<close>.\<close>

fun typeof_object :: "json option \<Rightarrow> bool" where
  "typeof_object (Some JNull) = True"
| "typeof_object (Some (JArr xs)) = True"
| "typeof_object (Some (JObj kvs)) = True"
| "typeof_object _ = False"

fun typeof_string :: "json option \<Rightarrow> bool" where
  "typeof_string (Some (JStr s)) = True"
| "typeof_string _ = False"

fun isArray :: "json option \<Rightarrow> bool" where
  "isArray (Some (JArr xs)) = True"
| "isArray _ = False"

text \<open>\<^verbatim>\<open>v == null\<close>: \<^verbatim>\<open>undefined\<close> or \<^verbatim>\<open>null\<close>.\<close>

fun nullish :: "json option \<Rightarrow> bool" where
  "nullish None = True"
| "nullish (Some JNull) = True"
| "nullish _ = False"

subsection \<open>Decimal numerals: \<^verbatim>\<open>Number.prototype.toString\<close> and array indices\<close>

definition digit_char :: "int \<Rightarrow> char" where
  "digit_char d = ''0123456789'' ! nat d"

text \<open>The decimal digits of a number that is not negative.\<close>

function digits :: "int \<Rightarrow> string" where
  "digits n = (if n < 10 then [digit_char n] else digits (n div 10) @ [digit_char (n mod 10)])"
  by pat_completeness auto
termination
  by (relation "measure nat") auto

declare digits.simps [simp del]


text \<open>
  \<^verbatim>\<open>Number.prototype.toString\<close> for a finite number.  The algorithm works on the digits
  \<open>s\<close> of the shortest decimal (trailing zeros are not among them), their count \<open>k\<close> and
  the scale \<open>n\<close>, the number being \<open>s \<times> 10^(n - k)\<close>.  Up to 21 integer digits and down to 6 leading zeros of a fraction
  are written out; beyond that the print has an exponent.
\<close>

function strip_zeros :: "int \<Rightarrow> int \<Rightarrow> int \<times> int" where
  "strip_zeros s e = (if s \<noteq> 0 \<and> s mod 10 = 0 then strip_zeros (s div 10) (e + 1) else (s, e))"
  by pat_completeness auto
termination
  by (relation "measure (\<lambda>(s, e). nat (abs s))") auto

declare strip_zeros.simps [simp del]

text \<open>The first \<open>n\<close> digits and the digits behind them.\<close>

fun first_digits :: "nat \<Rightarrow> string \<Rightarrow> string" where
  "first_digits n [] = []"
| "first_digits n (d # ds) = (if n = 0 then [] else d # first_digits (n - 1) ds)"

fun later_digits :: "nat \<Rightarrow> string \<Rightarrow> string" where
  "later_digits n [] = []"
| "later_digits n (d # ds) = (if n = 0 then d # ds else later_digits (n - 1) ds)"

text \<open>The print of the positive number \<open>a \<times> 10^e\<close>.\<close>

definition magnitude_toString :: "int \<Rightarrow> int \<Rightarrow> string" where
  "magnitude_toString a e =
     (case strip_zeros a e of
        (s, e') \<Rightarrow>
          (let ds = digits s; k = int (length ds); n = e' + k in
           if k \<le> n \<and> n \<le> 21 then ds @ replicate (nat (n - k)) CHR ''0''
           else if 0 < n \<and> n \<le> 21 then first_digits (nat n) ds @ ''.'' @ later_digits (nat n) ds
           else if - 6 < n \<and> n \<le> 0 then ''0.'' @ replicate (nat (- n)) CHR ''0'' @ ds
           else (if k = 1 then ds else hd ds # CHR ''.'' # tl ds)
                @ ''e'' @ (if n - 1 < 0 then ''-'' else ''+'') @ digits (abs (n - 1))))"

definition number_toString :: "number \<Rightarrow> string" where
  "number_toString x =
     (if mantissa x = 0 then ''0''
      else (if mantissa x < 0 then ''-'' else []) @ magnitude_toString (abs (mantissa x)) (exponent x))"

text \<open>
  A property name is an array index when it is the canonical decimal numeral (no sign, no
  leading zero) of a number below \<open>2^32 - 1\<close>.
\<close>

definition digit_of :: "char \<Rightarrow> nat option" where
  "digit_of c = map_of (zip ''0123456789'' [0, 1, 2, 3, 4, 5, 6, 7, 8, 9]) c"

definition parse_index :: "string \<Rightarrow> nat option" where
  "parse_index k =
     (if k = [] \<or> list_ex (\<lambda>c. digit_of c = None) k \<or> (1 < length k \<and> hd k = CHR ''0'') then None
      else (let n = foldl (\<lambda>a c. 10 * a + (case digit_of c of Some d \<Rightarrow> d | None \<Rightarrow> 0)) 0 k
            in if n < 4294967295 then Some n else None))"

subsection \<open>Property reads\<close>

text \<open>
  \<open>get_prop v k\<close> is \<^verbatim>\<open>v[k]\<close> for a value \<open>v\<close> that is neither \<^verbatim>\<open>null\<close> nor
  \<^verbatim>\<open>undefined\<close> (every call site below has excluded both).
  Arrays and strings answer to their indices and to \<^verbatim>\<open>length\<close>.
\<close>

fun get_prop :: "json \<Rightarrow> string \<Rightarrow> json option" where
  "get_prop (JObj kvs) k = map_of kvs k"
| "get_prop (JArr xs) k =
     (case parse_index k of
        Some i \<Rightarrow> if i < length xs then Some (xs ! i) else None
      | None \<Rightarrow> if k = ''length'' then Some (JNum (Decimal (int (length xs)) 0)) else None)"
| "get_prop (JStr s) k =
     (case parse_index k of
        Some i \<Rightarrow> if i < length s then Some (JStr [s ! i]) else None
      | None \<Rightarrow> if k = ''length'' then Some (JNum (Decimal (int (length s)) 0)) else None)"
| "get_prop _ k = None"

text \<open>\<^verbatim>\<open>v?.[k]\<close>: \<^verbatim>\<open>undefined\<close> when \<open>v\<close> is \<^verbatim>\<open>null\<close> or \<^verbatim>\<open>undefined\<close>.\<close>

definition opt_prop :: "json option \<Rightarrow> string \<Rightarrow> json option" where
  "opt_prop v k = (case v of None \<Rightarrow> None | Some JNull \<Rightarrow> None | Some w \<Rightarrow> get_prop w k)"

subsection \<open>\<^verbatim>\<open>getByPath\<close>\<close>

text \<open>\<^verbatim>\<open>path.split('.')\<close>; the empty string splits into one empty part.\<close>

fun split_dot :: "string \<Rightarrow> string list" where
  "split_dot [] = [[]]"
| "split_dot (c # cs) =
     (if c = CHR ''.'' then [] # split_dot cs
      else (case split_dot cs of [] \<Rightarrow> [[c]] | p # ps \<Rightarrow> (c # p) # ps))"

definition path_step :: "json option \<Rightarrow> string \<Rightarrow> json option" where
  "path_step acc k = (case acc of None \<Rightarrow> None | Some JNull \<Rightarrow> Some JNull | Some v \<Rightarrow> get_prop v k)"

definition getByPath :: "json option \<Rightarrow> string \<Rightarrow> json option" where
  "getByPath obj path = (if \<not> truthy obj then None else foldl path_step obj (split_dot path))"


subsection \<open>Sub-values are smaller\<close>

text \<open>
  The tree walks of the source recurse into what a property read returns.  These facts let
  each walk be defined by recursion on the size of the value.
\<close>

definition str_of :: "json option \<Rightarrow> string option" where
  "str_of v = (case v of Some (JStr s) \<Rightarrow> Some s | _ \<Rightarrow> None)"

definition arr_of :: "json option \<Rightarrow> json list option" where
  "arr_of v = (case v of Some (JArr xs) \<Rightarrow> Some xs | _ \<Rightarrow> None)"

lemma size_map_of: "map_of kvs k = Some v \<Longrightarrow> size v < Suc (size_list (size_prod (\<lambda>_. 0) size) kvs)"
  by (induction kvs) (auto split: if_splits)

lemma size_elem_json: "x \<in> set xs \<Longrightarrow> size x < Suc (size_list size xs)"
  by (induction xs) auto

lemma size_nth_json: "i < length xs \<Longrightarrow> size (xs ! i) < Suc (size_list size xs)"
  by (simp add: size_elem_json)

lemma get_prop_arr_size:
  assumes "get_prop v k = Some (JArr ch)"
  shows "size_list size ch < size v"
proof (cases v)
  case (JObj kvs)
  with assms have "size (JArr ch) < Suc (size_list (size_prod (\<lambda>_. 0) size) kvs)"
    by (auto dest: size_map_of)
  with JObj show ?thesis by simp
next
  case (JArr xs)
  with assms obtain i where "i < length xs" "xs ! i = JArr ch"
    by (auto split: option.splits if_splits)
  then have "size (JArr ch) < Suc (size_list size xs)"
    using size_nth_json [of i xs] by simp
  with JArr show ?thesis by simp
qed (use assms in \<open>auto split: option.splits if_splits\<close>)

lemma arr_of_get_prop_size:
  "arr_of (get_prop v k) = Some ch \<Longrightarrow> x \<in> set ch \<Longrightarrow> size x < size v"
  using get_prop_arr_size [of v k ch] size_elem_json [of x ch]
  by (auto simp: arr_of_def split: option.splits json.splits)

lemma mapE_cong [fundef_cong]:
  "xs = ys \<Longrightarrow> (\<And>x. x \<in> set ys \<Longrightarrow> f x = g x) \<Longrightarrow> mapE f xs = mapE g ys"
  by (induction ys arbitrary: xs) (auto split: sum.splits)

lemma bindE_cong [fundef_cong]:
  "m = m' \<Longrightarrow> (\<And>x. m' = Inr x \<Longrightarrow> f x = g x) \<Longrightarrow> bindE m f = bindE m' g"
  by (auto simp: bindE_def split: sum.splits)

section \<open>The rich-text helpers\<close>

subsection \<open>Strings: \<^verbatim>\<open>trim\<close>, \<^verbatim>\<open>join\<close>, \<^verbatim>\<open>replace(/\n{3,}/g, '\n\n')\<close>\<close>

definition nl :: char where
  "nl = CHR 0x0A"

text \<open>
  What \<^verbatim>\<open>String.prototype.trim\<close> strips is the white space and the line terminators of
  ECMAScript.  Among the code units below 256 these are tab, line feed, vertical tab, form
  feed, carriage return, space and the no-break space U+00A0; all the others (U+1680,
  U+2000 to U+200A, U+2028, U+2029, U+202F, U+205F, U+3000, U+FEFF) lie above.
\<close>

definition is_ws :: "char \<Rightarrow> bool" where
  "is_ws c = (c \<in> {CHR 0x09, CHR 0x0A, CHR 0x0B, CHR 0x0C, CHR 0x0D, CHR 0x20, CHR 0xA0})"

definition trim :: "string \<Rightarrow> string" where
  "trim s = rev (dropWhile is_ws (rev (dropWhile is_ws s)))"

fun join :: "string \<Rightarrow> string list \<Rightarrow> string" where
  "join sep [] = []"
| "join sep [s] = s"
| "join sep (s # t # ts) = s @ sep @ join sep (t # ts)"

text \<open>
  The global regular-expression replace scans from the left; where a run of at least three
  line feeds starts, the whole run (the quantifier is greedy) becomes two line feeds and the
  scan goes on behind it; any other character is copied.
\<close>

function collapse_newlines :: "string \<Rightarrow> string" where
  "collapse_newlines [] = []"
| "collapse_newlines (c # cs) =
     (if 3 \<le> length (takeWhile (\<lambda>x. x = nl) (c # cs))
      then [nl, nl] @ collapse_newlines (dropWhile (\<lambda>x. x = nl) (c # cs))
      else c # collapse_newlines cs)"
  by pat_completeness auto
termination
proof (relation "measure length")
  fix c :: char and cs :: string
  assume "3 \<le> length (takeWhile (\<lambda>x. x = nl) (c # cs))"
  then have "c = nl" by (auto split: if_splits)
  then have "length (dropWhile (\<lambda>x. x = nl) (c # cs)) \<le> length cs"
    by (simp add: length_dropWhile_le)
  then show "(dropWhile (\<lambda>x. x = nl) (c # cs), c # cs) \<in> measure length" by simp
qed auto

subsection \<open>\<^verbatim>\<open>looksLikeSlate\<close>, \<^verbatim>\<open>looksLikeLexical\<close>\<close>

definition looksLikeSlate :: "json option \<Rightarrow> bool" where
  "looksLikeSlate val =
     (case arr_of val of
        None \<Rightarrow> False
      | Some xs \<Rightarrow> list_all (\<lambda>n. typeof_object (Some n) \<and> \<not> nullish (Some n) \<and> truthy (get_prop n ''type'')) xs)"

definition looksLikeLexical :: "json option \<Rightarrow> bool" where
  "looksLikeLexical val =
     (truthy val \<and> typeof_object val \<and> truthy (opt_prop val ''root'')
      \<and> opt_prop (opt_prop val ''root'') ''type'' = Some (JStr ''root''))"

subsection \<open>\<^verbatim>\<open>slateToPlain\<close>\<close>

function collect :: "json \<Rightarrow> string" where
  "collect node =
     (if \<not> truthy (Some node) \<or> \<not> typeof_object (Some node) then []
      else (case str_of (get_prop node ''text'') of
              Some t \<Rightarrow> t
            | None \<Rightarrow> (case arr_of (get_prop node ''children'') of
                         Some ch \<Rightarrow> concat (map collect ch)
                       | None \<Rightarrow> [])))"
  by pat_completeness auto
termination
  by (relation "measure size") (auto dest: arr_of_get_prop_size)

declare collect.simps [simp del]

definition slateToPlain :: "json option \<Rightarrow> string" where
  "slateToPlain val =
     (case arr_of val of
        None \<Rightarrow> []
      | Some xs \<Rightarrow> trim (collapse_newlines (join [nl] (map collect xs))))"

subsection \<open>\<^verbatim>\<open>lexicalToPlain\<close>\<close>

text \<open>
  The callback of \<^verbatim>\<open>walk\<close> for one node.  \<^verbatim>\<open>n.type\<close> on a \<^verbatim>\<open>null\<close> element throws.
  The order of the three tests is the source's: text first, then children, then line break.
\<close>

function lex_node :: "json \<Rightarrow> error + string" where
  "lex_node n =
     (if n = JNull then Inl TypeError
      else (case (if get_prop n ''type'' = Some (JStr ''text'') then str_of (get_prop n ''text'') else None) of
              Some t \<Rightarrow> Inr t
            | None \<Rightarrow> (case arr_of (get_prop n ''children'') of
                         Some ch \<Rightarrow> bindE (mapE lex_node ch) (\<lambda>parts. Inr (concat parts))
                       | None \<Rightarrow> if get_prop n ''type'' = Some (JStr ''linebreak'') then Inr [nl] else Inr [])))"
  by pat_completeness auto
termination
  by (relation "measure size") (auto dest: arr_of_get_prop_size)

declare lex_node.simps [simp del]

definition walk :: "json list \<Rightarrow> error + string" where
  "walk nodes = bindE (mapE lex_node nodes) (\<lambda>parts. Inr (concat parts))"

text \<open>
  \<^verbatim>\<open>if (!val?.root?.children) return ''\<close>; then \<^verbatim>\<open>walk(val.root.children)\<close>, whose
  \<^verbatim>\<open>nodes.map\<close> throws when the children are not an array.
\<close>

definition lexicalToPlain :: "json option \<Rightarrow> error + string" where
  "lexicalToPlain val =
     (let children = opt_prop (opt_prop val ''root'') ''children'' in
      if \<not> truthy children then Inr []
      else (case arr_of children of
              None \<Rightarrow> Inl TypeError
            | Some ch \<Rightarrow> bindE (walk ch) (\<lambda>s. Inr (trim (collapse_newlines s)))))"


subsection \<open>Property writes and \<^verbatim>\<open>setByPath\<close>\<close>

text \<open>
  \<open>set_prop v k x\<close> is the value \<open>v\<close> after \<^verbatim>\<open>v[k] = x\<close>.  On an object the key
  keeps its place, a new key goes last.  On an array an index within the bounds replaces
  the element; an index past the end or a named property would leave the JSON data model,
  and the array is returned as it is (the hooks reach that case only when one localized
  field path is a proper prefix of another).  The source never assigns to a property of a
  primitive value.
\<close>

fun set_prop :: "json \<Rightarrow> string \<Rightarrow> json \<Rightarrow> json" where
  "set_prop (JObj kvs) k x = JObj (AList.update k x kvs)"
| "set_prop (JArr xs) k x =
     (case parse_index k of
        Some i \<Rightarrow> if i < length xs then JArr (xs[i := x]) else JArr xs
      | None \<Rightarrow> JArr xs)"
| "set_prop v k x = v"

text \<open>
  \<open>set_parts node parts value\<close> follows the loop of \<^verbatim>\<open>setByPath\<close>: a part that does not
  hold an object yet gets \<^verbatim>\<open>{}\<close>, the last part gets the value.
\<close>

fun set_parts :: "json \<Rightarrow> string list \<Rightarrow> json \<Rightarrow> json" where
  "set_parts node [] x = node"
| "set_parts node [p] x = set_prop node p x"
| "set_parts node (p # q # ps) x =
     (let child = (if \<not> typeof_object (get_prop node p) \<or> nullish (get_prop node p)
                   then JObj []
                   else (case get_prop node p of Some c \<Rightarrow> c | None \<Rightarrow> JObj []))
      in set_prop node p (set_parts child (q # ps) x))"

definition setByPath :: "json \<Rightarrow> string \<Rightarrow> json \<Rightarrow> json" where
  "setByPath target path x = set_parts target (split_dot path) x"

subsection \<open>Reinjection: \<^verbatim>\<open>translateLexicalContent\<close>, \<^verbatim>\<open>translateSlateContent\<close>\<close>

lemma parse_index_children [simp]: "parse_index ''children'' = None"
  by (simp add: parse_index_def digit_of_def)

lemma parse_index_text [simp]: "parse_index ''text'' = None"
  by (simp add: parse_index_def digit_of_def)

lemma parse_index_type [simp]: "parse_index ''type'' = None"
  by (simp add: parse_index_def digit_of_def)

lemma parse_index_root [simp]: "parse_index ''root'' = None"
  by (simp add: parse_index_def digit_of_def)

text \<open>
  \<^verbatim>\<open>for (const node of nodes || [])\<close>: nothing for a falsy value, the elements of an
  array, the characters of a string; any other value is not iterable.
\<close>

definition iterate :: "json option \<Rightarrow> error + json list" where
  "iterate nodes =
     (if \<not> truthy nodes then Inr []
      else (case nodes of
              Some (JArr xs) \<Rightarrow> Inr xs
            | Some (JStr s) \<Rightarrow> Inr (map (\<lambda>c. JStr [c]) s)
            | _ \<Rightarrow> Inl TypeError))"

lemma iterate_children_size:
  assumes "iterate (get_prop node ''children'') = Inr ch" and "x \<in> set ch"
  shows "size x < size node"
proof (cases "get_prop node ''children''")
  case None
  with assms show ?thesis by (simp add: iterate_def)
next
  case (Some c)
  show ?thesis
  proof (cases c)
    case (JArr xs)
    with Some assms have "arr_of (get_prop node ''children'') = Some ch"
      by (simp add: iterate_def arr_of_def)
    from this assms(2) show ?thesis by (rule arr_of_get_prop_size)
  next
    case (JStr t)
    with Some assms have "size x = 0"
      by (auto simp: iterate_def split: if_splits)
    moreover from Some JStr have "0 < size node"
      by (cases node) (auto split: if_splits)
    ultimately show ?thesis by simp
  qed (use Some assms in \<open>auto simp: iterate_def split: if_splits\<close>)
qed

text \<open>The two tests that make a node a text node.\<close>

definition is_text_lexical :: "json \<Rightarrow> bool" where
  "is_text_lexical node = (get_prop node ''type'' = Some (JStr ''text''))"

definition is_text_slate :: "json \<Rightarrow> bool" where
  "is_text_slate node = (get_prop node ''text'' \<noteq> None)"

text \<open>
  The body of the loop of \<^verbatim>\<open>findTextNodes\<close> for one node, with the test \<open>P\<close> of the
  dialect: the nodes pushed to \<^verbatim>\<open>textNodes\<close>, in the order of the pushes.
\<close>

function text_nodes :: "(json \<Rightarrow> bool) \<Rightarrow> json \<Rightarrow> error + json list" where
  "text_nodes P node =
     (if node = JNull then Inl TypeError
      else bindE (iterate (get_prop node ''children''))
             (\<lambda>ch. bindE (mapE (text_nodes P) ch)
                (\<lambda>subs. Inr ((if P node then [node] else []) @ concat subs))))"
  by pat_completeness auto
termination
  by (relation "measure (\<lambda>(P, node). size node)") (auto dest: iterate_children_size)

declare text_nodes.simps [simp del]

definition findTextNodes :: "(json \<Rightarrow> bool) \<Rightarrow> json option \<Rightarrow> error + json list" where
  "findTextNodes P nodes =
     bindE (iterate nodes) (\<lambda>xs. bindE (mapE (text_nodes P) xs) (\<lambda>subs. Inr (concat subs)))"

text \<open>How many nodes the walk pushes below (and including) a node.\<close>

function count_text :: "(json \<Rightarrow> bool) \<Rightarrow> json \<Rightarrow> nat" where
  "count_text P node =
     (if P node then 1 else 0)
     + (case arr_of (get_prop node ''children'') of
          Some ch \<Rightarrow> sum_list (map (count_text P) ch)
        | None \<Rightarrow> 0)"
  by pat_completeness auto
termination
  by (relation "measure (\<lambda>(P, node). size node)") (auto dest: arr_of_get_prop_size)

declare count_text.simps [simp del]

text \<open>
  The assignments \<^verbatim>\<open>textNodes[0].text = translatedText\<close> and \<^verbatim>\<open>textNodes[i].text = ''\<close>
  mutate nodes of the fresh copy through the references collected in document order.  The
  copy is a tree, so the node at position \<open>i\<close> of \<^verbatim>\<open>textNodes\<close> is the \<open>i\<close>-th text node
  met by the walk: \<open>relabel P s i node\<close> is \<open>node\<close> after the assignments, where \<open>i\<close> text
  nodes precede it.
\<close>

function relabel :: "(json \<Rightarrow> bool) \<Rightarrow> string \<Rightarrow> nat \<Rightarrow> json \<Rightarrow> json"
  and relabel_list :: "(json \<Rightarrow> bool) \<Rightarrow> string \<Rightarrow> nat \<Rightarrow> json list \<Rightarrow> json list" where
  "relabel P s i node =
     (let node1 = (if P node then set_prop node ''text'' (JStr (if i = 0 then s else [])) else node);
          i1 = (if P node then Suc i else i)
      in (case arr_of (get_prop node ''children'') of
            Some ch \<Rightarrow> set_prop node1 ''children'' (JArr (relabel_list P s i1 ch))
          | None \<Rightarrow> node1))"
| "relabel_list P s i [] = []"
| "relabel_list P s i (x # xs) = relabel P s i x # relabel_list P s (i + count_text P x) xs"
  by pat_completeness auto
termination
proof (relation "measure (\<lambda>a. case a of Inl (P, s, i, node) \<Rightarrow> 2 * size node
                                      | Inr (P, s, i, xs) \<Rightarrow> 2 * size_list size xs + 1)")
  fix P :: "json \<Rightarrow> bool" and s :: string and i :: nat and node :: json
    and x :: "json list" and xb :: nat
  assume "arr_of (get_prop node ''children'') = Some x"
  then have "size_list size x < size node"
    using get_prop_arr_size [of node "''children''" x]
    by (auto simp: arr_of_def split: option.splits json.splits)
  then show "(Inr (P, s, xb, x), Inl (P, s, i, node))
      \<in> measure (\<lambda>a. case a of Inl (P, s, i, node) \<Rightarrow> 2 * size node
                             | Inr (P, s, i, xs) \<Rightarrow> 2 * size_list size xs + 1)"
    by simp
qed auto

declare relabel.simps [simp del]

text \<open>
  \<^verbatim>\<open>JSON.parse(JSON.stringify(source))\<close> of a JSON value is an equal, fresh value, so the
  copy is \<open>source\<close> itself.
\<close>

definition translateLexicalContent :: "json \<Rightarrow> string \<Rightarrow> error + json" where
  "translateLexicalContent source translatedText =
     (case opt_prop (Some source) ''root'' of
        None \<Rightarrow> Inr source
      | Some root \<Rightarrow>
          if \<not> truthy (Some root) then Inr source
          else bindE (findTextNodes is_text_lexical (get_prop root ''children''))
                 (\<lambda>textNodes.
                    Inr (case arr_of (get_prop root ''children'') of
                           Some ch \<Rightarrow>
                             set_prop source ''root''
                               (set_prop root ''children''
                                  (JArr (relabel_list is_text_lexical translatedText 0 ch)))
                         | None \<Rightarrow> source)))"

definition translateSlateContent :: "json \<Rightarrow> string \<Rightarrow> error + json" where
  "translateSlateContent source translatedText =
     (case arr_of (Some source) of
        None \<Rightarrow> Inr source
      | Some xs \<Rightarrow>
          bindE (findTextNodes is_text_slate (Some source))
            (\<lambda>textNodes. Inr (JArr (relabel_list is_text_slate translatedText 0 xs))))"


section \<open>The schema walker: \<^verbatim>\<open>detectLocalizedFieldsWithMeta\<close>\<close>

text \<open>
  A field of the collection schema, as far as the walker reads it: its name (absent for a
  layout field), whether it is localized, its type, its child fields and its block variants.
  A missing list of children or blocks behaves as the empty one.  The path
  prefix handed down by \<^verbatim>\<open>visit\<close> is called \<open>parent\<close> here.
\<close>

datatype field = Field (fname: "string option") (flocalized: bool) (ftype: string)
                       (ffields: "field list") (fblocks: "block list")
  and block = Block (bslug: string) (bfields: "field list")

definition field_path :: "string \<Rightarrow> string option \<Rightarrow> string" where
  "field_path parent name =
     (case name of
        None \<Rightarrow> parent
      | Some n \<Rightarrow> if n = [] then parent else if parent \<noteq> [] then parent @ ''.'' @ n else n)"

definition has_name :: "string option \<Rightarrow> bool" where
  "has_name name = (case name of None \<Rightarrow> False | Some n \<Rightarrow> n \<noteq> [])"

text \<open>The walk returns the pushes of one call of \<^verbatim>\<open>visit\<close>: path and type, in order.\<close>

fun visit :: "field list \<Rightarrow> string \<Rightarrow> (string \<times> string) list"
  and visit_field :: "field \<Rightarrow> string \<Rightarrow> (string \<times> string) list"
  and visit_blocks :: "block list \<Rightarrow> bool \<Rightarrow> string \<Rightarrow> string \<Rightarrow> (string \<times> string) list" where
  "visit [] parent = []"
| "visit (f # fs) parent = visit_field f parent @ visit fs parent"
| "visit_field (Field name localized ty children blocks) parent =
     (let path = field_path parent name in
      (if has_name name \<and> localized \<and> (ty = ''text'' \<or> ty = ''textarea'' \<or> ty = ''richText'')
       then [(path, ty)] else [])
      @ visit children (if has_name name then path else parent)
      @ visit_blocks blocks (has_name name) path parent)"
| "visit_blocks [] named path parent = []"
| "visit_blocks (Block slug children # bs) named path parent =
     visit children (if named then path @ ''.'' @ slug else parent)
     @ visit_blocks bs named path parent"

text \<open>\<^verbatim>\<open>fields\<close> keeps every push; in the map \<^verbatim>\<open>meta\<close> a later push replaces an earlier one.\<close>

definition detectLocalizedFieldsWithMeta :: "field list \<Rightarrow> string list \<times> (string \<rightharpoonup> string)" where
  "detectLocalizedFieldsWithMeta collection_fields =
     (let pushes = visit collection_fields [] in (map fst pushes, map_of (rev pushes)))"

section \<open>The environment of a hook invocation\<close>

datatype locale_entry = LocaleCode string | LocaleObject (code: string)

fun locale_code :: "locale_entry \<Rightarrow> string" where
  "locale_code (LocaleCode l) = l"
| "locale_code (LocaleObject l) = l"

record localization =
  locales :: "locale_entry list"
  defaultLocale :: "locale_entry option"

record config =
  cfg_fields :: "string list"
  cfg_sourceLocale :: "string option"
  cfg_targetLocales :: "string list option"
  cfg_guardFlagField :: "string option"
  cfg_dryRun :: bool
  cfg_skipIfSlateTarget :: "bool option"

record request =
  req_headers :: "json option"
  req_locale :: "string option"
  req_localization :: "localization option"

text \<open>
  What one call of the language model is asked: the parameters of \<^verbatim>\<open>buildPrompt\<close>.
  The source locale is a locale code; in the older hook it can also be the locale object
  that the framework has for its default.
\<close>

record llm_request =
  from_locale :: locale_entry
  to_locale :: string
  ask_fields :: "string list"
  source_values :: "(string \<times> string) list"

text \<open>
  The collaborators.  \<open>findByID\<close> is the answer of the record store to the read of the
  all-locale view of the changed document.  \<open>callJSONModel n r\<close> is the parsed answer (or
  the failure) of the \<open>n\<close>-th call of the model in this invocation, \<open>update n locale patch\<close>
  the failure, if any, of the \<open>n\<close>-th write.
\<close>

record env =
  findByID :: "error + json"
  callJSONModel :: "nat \<Rightarrow> llm_request \<Rightarrow> error + json"
  update :: "nat \<Rightarrow> string \<Rightarrow> json \<Rightarrow> error option"

text \<open>The calls an invocation makes, in order.  Informational logging is left out.\<close>

datatype event =
    EvFindByID
  | EvLLM string "string list"
  | EvUpdate string json
  | EvDryRunLog string json
  | EvErrorLog string error

definition HEADER_GUARD :: string where
  "HEADER_GUARD = ''x-ai-localize''"

text \<open>\<^verbatim>\<open>req.headers?.[HEADER_GUARD] === '1'\<close>\<close>

definition guarded :: "request \<Rightarrow> bool" where
  "guarded req = (opt_prop (req_headers req) HEADER_GUARD = Some (JStr ''1''))"

text \<open>\<^verbatim>\<open>config.guardFlagField && doc?.[config.guardFlagField] === false\<close>\<close>

definition gate_closed :: "config \<Rightarrow> json \<Rightarrow> bool" where
  "gate_closed cfg doc =
     (case cfg_guardFlagField cfg of
        None \<Rightarrow> False
      | Some g \<Rightarrow> g \<noteq> [] \<and> opt_prop (Some doc) g = Some (JBool False))"

text \<open>\<^verbatim>\<open>a || b\<close> on optional strings: the empty string is falsy.\<close>

definition or_else :: "string option \<Rightarrow> string option \<Rightarrow> string option" where
  "or_else a b = (case a of None \<Rightarrow> b | Some x \<Rightarrow> if x = [] then b else Some x)"

subsection \<open>\<^verbatim>\<open>toString\<close>\<close>

text \<open>
  \<^verbatim>\<open>x.toString()\<close> for a value that is not \<^verbatim>\<open>undefined\<close>, which for a value other than
  \<^verbatim>\<open>null\<close> is also \<^verbatim>\<open>String(x)\<close>.  A number prints as above.  An array joins the
  conversions of its elements with commas, \<^verbatim>\<open>null\<close> elements giving the empty string.
  An object gives "[object Object]" by the inherited method; when it has a key
  \<^verbatim>\<open>toString\<close> of its own, that JSON value is found in place of the method, and the
  conversion throws.  The method call on \<^verbatim>\<open>null\<close> throws too; the hooks guard it with
  \<^verbatim>\<open>?? ''\<close>.
\<close>

function js_toString :: "json \<Rightarrow> error + string" where
  "js_toString JNull = Inl TypeError"
| "js_toString (JBool b) = Inr (if b then ''true'' else ''false'')"
| "js_toString (JNum n) = Inr (number_toString n)"
| "js_toString (JStr s) = Inr s"
| "js_toString (JArr xs) =
     bindE (mapE (\<lambda>x. if x = JNull then Inr [] else js_toString x) xs) (\<lambda>parts. Inr (join '','' parts))"
| "js_toString (JObj kvs) =
     (if map_of kvs ''toString'' = None then Inr ''[object Object]'' else Inl TypeError)"
  by pat_completeness auto
termination
  by (relation "measure size") (auto dest: size_elem_json)

text \<open>\<^verbatim>\<open>(x ?? '').toString()\<close>\<close>

definition string_or_empty :: "json option \<Rightarrow> error + string" where
  "string_or_empty x = (if nullish x then Inr [] else (case x of Some v \<Rightarrow> js_toString v | None \<Rightarrow> Inr []))"


section \<open>The rich-text aware hook\<close>

subsection \<open>Content scores and the source locale\<close>

text \<open>\<^verbatim>\<open>typeof v === 'object' && v !== null ? v[locale] : v\<close>\<close>

definition locale_value :: "json option \<Rightarrow> string \<Rightarrow> json option" where
  "locale_value v locale = (if typeof_object v \<and> \<not> nullish v then opt_prop v locale else v)"

text \<open>One round of the loop of \<^verbatim>\<open>contentScore\<close>: what the field adds to the score.\<close>

definition field_score :: "json option \<Rightarrow> error + nat" where
  "field_score val =
     (if (case str_of val of Some s \<Rightarrow> trim s \<noteq> [] | None \<Rightarrow> False) then Inr 1
      else if looksLikeSlate val \<and> slateToPlain val \<noteq> [] then Inr 1
      else if looksLikeLexical val
           then bindE (lexicalToPlain val) (\<lambda>s. Inr (if s \<noteq> [] then 1 else 0))
      else Inr 0)"

definition contentScore :: "json option \<Rightarrow> string list \<Rightarrow> string \<Rightarrow> (string \<rightharpoonup> string) \<Rightarrow> error + nat" where
  "contentScore docAllLocales fieldsToLocalize locale meta =
     bindE (mapE (\<lambda>f. field_score (locale_value (getByPath docAllLocales f) locale)) fieldsToLocalize)
       (\<lambda>adds. Inr (sum_list adds))"

text \<open>\<^verbatim>\<open>allLocales.map((l) => [l, contentScore(docAllLocales, fieldsToLocalize, l, fieldMeta)])\<close>\<close>

definition score_table ::
  "json option \<Rightarrow> string list \<Rightarrow> (string \<rightharpoonup> string) \<Rightarrow> string list \<Rightarrow> error + (string \<times> nat) list" where
  "score_table docAllLocales fieldsToLocalize meta ls =
     mapE (\<lambda>l. bindE (contentScore docAllLocales fieldsToLocalize l meta) (\<lambda>n. Inr (l, n))) ls"

text \<open>
  \<^verbatim>\<open>Object.fromEntries\<close>: a repeated key keeps its first place and takes the later value.
  \<^verbatim>\<open>Object.entries\<close>: the keys that are array indices come first, in ascending numeric
  order, then the other keys in insertion order.
\<close>

definition from_entries :: "(string \<times> 'a) list \<Rightarrow> (string \<times> 'a) list" where
  "from_entries pairs = fold (\<lambda>(k, v) acc. AList.update k v acc) pairs []"

definition object_entries :: "(string \<times> 'a) list \<Rightarrow> (string \<times> 'a) list" where
  "object_entries kvs =
     sort_key (\<lambda>(k, v). case parse_index k of Some n \<Rightarrow> n | None \<Rightarrow> 0)
       (filter (\<lambda>(k, v). parse_index k \<noteq> None) kvs)
     @ filter (\<lambda>(k, v). parse_index k = None) kvs"

text \<open>
  \<^verbatim>\<open>Object.entries(scores).sort((a, b) => b[1] - a[1])[0]?.[0]\<close>; the sort is stable.
\<close>

definition bestLocale :: "(string \<times> nat) list \<Rightarrow> string option" where
  "bestLocale scores =
     (case sort_key (\<lambda>(l, n). - int n) (object_entries scores) of
        [] \<Rightarrow> None
      | (l, n) # rest \<Rightarrow> Some l)"

text \<open>\<^verbatim>\<open>scores[l] > 0\<close>; a missing entry compares as false.\<close>

definition positive_score :: "(string \<times> nat) list \<Rightarrow> string \<Rightarrow> bool" where
  "positive_score scores l = (case map_of scores l of Some n \<Rightarrow> 0 < n | None \<Rightarrow> False)"

text \<open>
  \<^verbatim>\<open>(typeof localesCfg.defaultLocale === 'string' ? localesCfg.defaultLocale :
  localesCfg.defaultLocale?.code) || 'en'\<close>: the default locale of the framework.
\<close>

definition framework_default :: "localization \<Rightarrow> string" where
  "framework_default lc =
     (case or_else (map_option locale_code (defaultLocale lc)) (Some ''en'') of
        Some l \<Rightarrow> l
      | None \<Rightarrow> ''en'')"

text \<open>
  The constant the source calls \<^verbatim>\<open>defaultLocale\<close>: the configured source locale if there
  is one, else the default locale of the framework.
\<close>

definition default_locale :: "config \<Rightarrow> localization \<Rightarrow> string" where
  "default_locale cfg lc =
     (case or_else (cfg_sourceLocale cfg) None of
        Some l \<Rightarrow> l
      | None \<Rightarrow> framework_default lc)"

definition actualSourceLocale :: "config \<Rightarrow> localization \<Rightarrow> (string \<times> nat) list \<Rightarrow> string" where
  "actualSourceLocale cfg lc scores =
     (case or_else (cfg_sourceLocale cfg) None of
        Some src \<Rightarrow>
          if positive_score scores src then src
          else (case or_else (bestLocale scores) None of
                  Some b \<Rightarrow> b
                | None \<Rightarrow> default_locale cfg lc)
      | None \<Rightarrow>
          (case bestLocale scores of
             Some b \<Rightarrow> if positive_score scores b then b else default_locale cfg lc
           | None \<Rightarrow> default_locale cfg lc))"

definition allLocales :: "localization \<Rightarrow> string list" where
  "allLocales lc = map locale_code (locales lc)"

text \<open>\<^verbatim>\<open>config.targetLocales?.length ? config.targetLocales : allLocales\<close>\<close>

definition requestedTargets :: "config \<Rightarrow> localization \<Rightarrow> string list" where
  "requestedTargets cfg lc =
     (case cfg_targetLocales cfg of
        None \<Rightarrow> allLocales lc
      | Some ts \<Rightarrow> if ts = [] then allLocales lc else ts)"

subsection \<open>Source values and missing fields\<close>

datatype dialect = Slate | Lexical

text \<open>
  One round of the loop that fills \<^verbatim>\<open>sourceValues\<close> and \<^verbatim>\<open>sourceRichTextStructures\<close>:
  the flattened text of the field and, for recognized rich text, the structure kept.
\<close>

definition plain_or_empty :: "json option \<Rightarrow> string" where
  "plain_or_empty val = (case str_of val of Some s \<Rightarrow> s | None \<Rightarrow> [])"

definition source_entry ::
  "(string \<rightharpoonup> string) \<Rightarrow> json option \<Rightarrow> string \<Rightarrow> string
     \<Rightarrow> error + (string \<times> string \<times> (dialect \<times> json) option)" where
  "source_entry meta docAllLocales src f =
     (let val = locale_value (getByPath docAllLocales f) src in
      if meta f = Some ''richText'' then
        (if looksLikeSlate val then Inr (f, slateToPlain val, map_option (Pair Slate) val)
         else if looksLikeLexical val
              then bindE (lexicalToPlain val) (\<lambda>s. Inr (f, s, map_option (Pair Lexical) val))
         else Inr (f, plain_or_empty val, None))
      else Inr (f, plain_or_empty val, None))"

text \<open>\<^verbatim>\<open>typeof v === 'object' && v !== null ? v[locale] : undefined\<close>\<close>

definition target_value :: "json option \<Rightarrow> string \<Rightarrow> json option" where
  "target_value v locale = (if typeof_object v \<and> \<not> nullish v then opt_prop v locale else None)"

definition blank :: "json option \<Rightarrow> bool" where
  "blank val = (case str_of val of Some s \<Rightarrow> trim s = [] | None \<Rightarrow> False)"

definition empty_array :: "json option \<Rightarrow> bool" where
  "empty_array val = (case arr_of val of Some xs \<Rightarrow> xs = [] | None \<Rightarrow> False)"

text \<open>The value of \<^verbatim>\<open>empty\<close> for a field of type \<open>kind\<close> whose target value is \<open>val\<close>.\<close>

definition field_empty :: "string option \<Rightarrow> json option \<Rightarrow> error + bool" where
  "field_empty kind val =
     (if kind = Some ''richText'' then
        (if nullish val then Inr True
         else if looksLikeSlate val then Inr (trim (slateToPlain val) = [])
         else if looksLikeLexical val then bindE (lexicalToPlain val) (\<lambda>s. Inr (trim s = []))
         else if isArray val then Inr (empty_array val)
         else if typeof_string val then Inr (blank val)
         else Inr True)
      else Inr (nullish val \<or> blank val \<or> empty_array val))"

definition fieldsMissing ::
  "(string \<rightharpoonup> string) \<Rightarrow> json option \<Rightarrow> string list \<Rightarrow> string \<Rightarrow> error + string list" where
  "fieldsMissing meta docAllLocales fieldsToLocalize locale =
     bindE (mapE (\<lambda>f. bindE (field_empty (meta f) (target_value (getByPath docAllLocales f) locale))
                          (\<lambda>e. Inr (f, e))) fieldsToLocalize)
       (\<lambda>marks. Inr (map fst (filter snd marks)))"

text \<open>What the hook has worked out when it enters the loop over \<^verbatim>\<open>toFill\<close>.\<close>

record plan =
  plan_source :: string
  plan_sourceValues :: "(string \<times> string) list"
  plan_structures :: "(string \<times> dialect \<times> json) list"
  plan_toFill :: "(string \<times> string list) list"

text \<open>
  The hook from the scores to \<^verbatim>\<open>toFill\<close>.  \<open>None\<close> is an early \<^verbatim>\<open>return doc\<close>: no
  source text, or nothing to fill.
\<close>

definition prepare ::
  "config \<Rightarrow> localization \<Rightarrow> string list \<Rightarrow> (string \<rightharpoonup> string) \<Rightarrow> json option
     \<Rightarrow> error + plan option" where
  "prepare cfg lc fieldsToLocalize meta docAllLocales =
     bindE (score_table docAllLocales fieldsToLocalize meta (allLocales lc))
       (\<lambda>scored.
          let src = actualSourceLocale cfg lc (from_entries scored) in
          bindE (mapE (source_entry meta docAllLocales src) fieldsToLocalize)
            (\<lambda>entries.
               let sourceValues = from_entries (map (\<lambda>(f, s, st). (f, s)) entries);
                   structures = from_entries
                     (concat (map (\<lambda>(f, s, st). case st of None \<Rightarrow> [] | Some d \<Rightarrow> [(f, d)]) entries))
               in if \<not> list_ex (\<lambda>(f, s). trim s \<noteq> []) sourceValues then Inr None
                  else bindE (mapE (\<lambda>l. bindE (fieldsMissing meta docAllLocales fieldsToLocalize l)
                                            (\<lambda>fm. Inr (l, fm)))
                                (filter (\<lambda>l. l \<noteq> src) (requestedTargets cfg lc)))
                         (\<lambda>per_target.
                            let toFill = filter (\<lambda>(l, fm). fm \<noteq> []) per_target in
                            if toFill = [] then Inr None
                            else Inr (Some \<lparr>plan_source = src, plan_sourceValues = sourceValues,
                                            plan_structures = structures, plan_toFill = toFill\<rparr>))))"

subsection \<open>The patch for one target locale\<close>

definition patch_value ::
  "(string \<rightharpoonup> string) \<Rightarrow> (string \<times> dialect \<times> json) list \<Rightarrow> json \<Rightarrow> string \<Rightarrow> error + json" where
  "patch_value meta structures result f =
     bindE (string_or_empty (opt_prop (Some result) f))
       (\<lambda>proposed.
          if meta f = Some ''richText'' then
            (case map_of structures f of
               Some (Lexical, structure) \<Rightarrow> translateLexicalContent structure proposed
             | Some (Slate, structure) \<Rightarrow> translateSlateContent structure proposed
             | None \<Rightarrow> Inr (JStr proposed))
          else Inr (JStr proposed))"

fun build_patch ::
  "(string \<rightharpoonup> string) \<Rightarrow> (string \<times> dialect \<times> json) list \<Rightarrow> json \<Rightarrow> string list \<Rightarrow> json
     \<Rightarrow> error + json" where
  "build_patch meta structures result [] patch = Inr patch"
| "build_patch meta structures result (f # fs) patch =
     bindE (patch_value meta structures result f)
       (\<lambda>x. build_patch meta structures result fs (setByPath patch f x))"

subsection \<open>The loop over \<^verbatim>\<open>toFill\<close> and the hook\<close>

text \<open>
  One round: the call of the model, the patch, then the dry-run log or the write.  Whatever
  is thrown inside the \<^verbatim>\<open>try\<close> ends the round with an error log.
\<close>

definition fill_one ::
  "config \<Rightarrow> env \<Rightarrow> (string \<rightharpoonup> string) \<Rightarrow> plan \<Rightarrow> nat \<Rightarrow> string \<Rightarrow> string list \<Rightarrow> event list" where
  "fill_one cfg e meta pl n locale missing =
     EvLLM locale missing #
     (case callJSONModel e n \<lparr>from_locale = LocaleCode (plan_source pl), to_locale = locale,
                              ask_fields = missing, source_values = plan_sourceValues pl\<rparr> of
        Inl err \<Rightarrow> [EvErrorLog locale err]
      | Inr result \<Rightarrow>
          (case build_patch meta (plan_structures pl) result missing (JObj []) of
             Inl err \<Rightarrow> [EvErrorLog locale err]
           | Inr patch \<Rightarrow>
               if patch = JObj [] then []
               else if cfg_dryRun cfg then [EvDryRunLog locale patch]
               else EvUpdate locale patch #
                    (case update e n locale patch of
                       Some err \<Rightarrow> [EvErrorLog locale err]
                     | None \<Rightarrow> [])))"

fun fill_loop ::
  "config \<Rightarrow> env \<Rightarrow> (string \<rightharpoonup> string) \<Rightarrow> plan \<Rightarrow> nat \<Rightarrow> (string \<times> string list) list \<Rightarrow> event list" where
  "fill_loop cfg e meta pl n [] = []"
| "fill_loop cfg e meta pl n ((locale, missing) # rest) =
     fill_one cfg e meta pl n locale missing @ fill_loop cfg e meta pl (Suc n) rest"

text \<open>
  \<^verbatim>\<open>typeof firstVal === 'string' || Array.isArray(firstVal) || looksLikeLexical(firstVal)\<close>
\<close>

definition localizedView :: "json option \<Rightarrow> bool" where
  "localizedView firstVal = (typeof_string firstVal \<or> isArray firstVal \<or> looksLikeLexical firstVal)"

text \<open>
  The hook returns the calls it made and either the document or the exception that leaves
  it.  The option \<^verbatim>\<open>skipIfSlateTarget\<close> is read into a constant that nothing uses.
\<close>

definition aiLocalizeCollection ::
  "config \<Rightarrow> env \<Rightarrow> request \<Rightarrow> field list \<Rightarrow> json \<Rightarrow> event list \<times> (error + json)" where
  "aiLocalizeCollection cfg e req collection_fields doc =
     (if guarded req then ([], Inr doc)
      else (case req_localization req of
         None \<Rightarrow> ([], Inr doc)
       | Some lc \<Rightarrow>
          (case detectLocalizedFieldsWithMeta collection_fields of
             ([], meta) \<Rightarrow> ([], Inr doc)
           | (f0 # fs, meta) \<Rightarrow>
               if gate_closed cfg doc then ([], Inr doc)
               else if localizedView (getByPath (Some doc) f0) then
                 (case findByID e of
                    Inl err \<Rightarrow> ([EvFindByID], Inl err)
                  | Inr docAllLocales \<Rightarrow>
                      (case prepare cfg lc (f0 # fs) meta (Some docAllLocales) of
                         Inl err \<Rightarrow> ([EvFindByID], Inl err)
                       | Inr None \<Rightarrow> ([EvFindByID], Inr doc)
                       | Inr (Some pl) \<Rightarrow>
                           (EvFindByID # fill_loop cfg e meta pl 0 (plan_toFill pl), Inr doc)))
               else
                 (case prepare cfg lc (f0 # fs) meta (Some doc) of
                    Inl err \<Rightarrow> ([], Inl err)
                  | Inr None \<Rightarrow> ([], Inr doc)
                  | Inr (Some pl) \<Rightarrow> (fill_loop cfg e meta pl 0 (plan_toFill pl), Inr doc)))))"


section \<open>The older hook of \<^verbatim>\<open>src/hooks/aiLocalize.ts\<close>\<close>

text \<open>
  The older hook takes its field names from \<^verbatim>\<open>config.fields\<close>, knows plain text only and
  reads the changed document itself.

  \<^verbatim>\<open>config.sourceLocale || localesCfg.defaultLocale || 'en'\<close>: the default locale of the
  framework is taken as it is, a code or a locale object.
\<close>

definition sourceLocale :: "config \<Rightarrow> localization \<Rightarrow> locale_entry" where
  "sourceLocale cfg lc =
     (case or_else (cfg_sourceLocale cfg) None of
        Some l \<Rightarrow> LocaleCode l
      | None \<Rightarrow>
          (case defaultLocale lc of
             Some (LocaleObject c) \<Rightarrow> LocaleObject c
           | Some (LocaleCode d) \<Rightarrow> if d = [] then LocaleCode ''en'' else LocaleCode d
           | None \<Rightarrow> LocaleCode ''en''))"

text \<open>
  \<^verbatim>\<open>v[sourceLocale]\<close>: a key that is an object reads the property named by the string
  conversion of the object, which for the plain locale object is "[object Object]".
\<close>

fun property_key :: "locale_entry \<Rightarrow> string" where
  "property_key (LocaleCode l) = l"
| "property_key (LocaleObject c) = ''[object Object]''"

text \<open>
  \<^verbatim>\<open>typeof v === 'object' && v !== null ? (v[key] ?? '').toString() : ''\<close> for
  \<^verbatim>\<open>v = doc?.[f]\<close>
\<close>

definition locale_text :: "json \<Rightarrow> string \<Rightarrow> string \<Rightarrow> error + string" where
  "locale_text doc key f =
     (let v = opt_prop (Some doc) f in
      if typeof_object v \<and> \<not> nullish v then string_or_empty (opt_prop v key) else Inr [])"

text \<open>The texts of all configured fields under one key, in the order of the fields.\<close>

definition locale_texts :: "config \<Rightarrow> json \<Rightarrow> string \<Rightarrow> error + (string \<times> string) list" where
  "locale_texts cfg doc key =
     bindE (mapE (\<lambda>f. bindE (locale_text doc key f) (\<lambda>s. Inr (f, s))) (cfg_fields cfg))
       (\<lambda>pairs. Inr (from_entries pairs))"

text \<open>\<^verbatim>\<open>Object.values(values).some((s) => (s || '').trim().length > 0)\<close>\<close>

definition has_content :: "(string \<times> string) list \<Rightarrow> bool" where
  "has_content values = list_ex (\<lambda>(f, s). trim s \<noteq> []) values"

text \<open>\<^verbatim>\<open>config.fields[0]\<close>; an empty list gives \<^verbatim>\<open>undefined\<close>, which as a key reads "undefined".\<close>

definition firstField :: "config \<Rightarrow> string" where
  "firstField cfg = (case cfg_fields cfg of [] \<Rightarrow> ''undefined'' | f # fs \<Rightarrow> f)"

text \<open>
  The loop that looks for a locale with content: the first one wins and gives the source
  values; when there is none, what was found for the configured source stays.
\<close>

fun first_with_content ::
  "config \<Rightarrow> json \<Rightarrow> string list \<Rightarrow> locale_entry \<times> (string \<times> string) list
     \<Rightarrow> error + locale_entry \<times> (string \<times> string) list" where
  "first_with_content cfg doc [] found = Inr found"
| "first_with_content cfg doc (l # ls) found =
     bindE (locale_texts cfg doc l)
       (\<lambda>testValues. if has_content testValues then Inr (LocaleCode l, testValues)
                     else first_with_content cfg doc ls found)"

text \<open>
  The source locale and the source values the older hook settles on.  In a locale-scoped
  document the source is \<^verbatim>\<open>req.locale || sourceLocale\<close>.  Otherwise the configured source
  is tried first and then every locale in turn.
\<close>

definition detect_source ::
  "config \<Rightarrow> request \<Rightarrow> localization \<Rightarrow> json \<Rightarrow> error + locale_entry \<times> (string \<times> string) list" where
  "detect_source cfg req lc doc =
     (if typeof_string (opt_prop (Some doc) (firstField cfg)) then
        bindE (mapE (\<lambda>f. bindE (string_or_empty (opt_prop (Some doc) f)) (\<lambda>s. Inr (f, s))) (cfg_fields cfg))
          (\<lambda>pairs. Inr ((case or_else (req_locale req) None of
                            Some l \<Rightarrow> LocaleCode l
                          | None \<Rightarrow> sourceLocale cfg lc),
                         from_entries pairs))
      else
        bindE (locale_texts cfg doc (property_key (sourceLocale cfg lc)))
          (\<lambda>sourceValues.
             if has_content sourceValues then Inr (sourceLocale cfg lc, sourceValues)
             else first_with_content cfg doc (allLocales lc) (sourceLocale cfg lc, sourceValues)))"

text \<open>
  \<^verbatim>\<open>val = typeof v === 'object' && v !== null ? (v[locale] ?? '') : ''\<close>, then
  \<^verbatim>\<open>!val || String(val).trim() === ''\<close>
\<close>

definition missing_in :: "json \<Rightarrow> string \<Rightarrow> string \<Rightarrow> error + bool" where
  "missing_in doc locale f =
     (let v = opt_prop (Some doc) f;
          val = (if typeof_object v \<and> \<not> nullish v \<and> \<not> nullish (opt_prop v locale)
                 then opt_prop v locale else Some (JStr []))
      in if \<not> truthy val then Inr True
         else bindE (string_or_empty val) (\<lambda>s. Inr (trim s = [])))"

definition fieldsMissing_older :: "config \<Rightarrow> json \<Rightarrow> string \<Rightarrow> error + string list" where
  "fieldsMissing_older cfg doc locale =
     bindE (mapE (\<lambda>f. bindE (missing_in doc locale f) (\<lambda>m. Inr (f, m))) (cfg_fields cfg))
       (\<lambda>marks. Inr (map fst (filter snd marks)))"

text \<open>
  The older hook up to its loop.  The log line of the early exit reads \<^verbatim>\<open>doc.id\<close>, which
  throws for a document that is \<^verbatim>\<open>null\<close>.  The locales worked on are
  \<^verbatim>\<open>allLocales.filter((l) => l !== actualSourceLocale)\<close>; a locale object is different from
  every code.
\<close>

record older_plan =
  older_source :: locale_entry
  older_sourceValues :: "(string \<times> string) list"
  older_toFill :: "(string \<times> string list) list"

definition prepare_older :: "config \<Rightarrow> request \<Rightarrow> localization \<Rightarrow> json \<Rightarrow> error + older_plan option" where
  "prepare_older cfg req lc doc =
     bindE (detect_source cfg req lc doc)
       (\<lambda>(src, sourceValues).
          if \<not> has_content sourceValues then
            (if nullish (Some doc) then Inl TypeError else Inr None)
          else
            bindE (mapE (\<lambda>l. bindE (fieldsMissing_older cfg doc l) (\<lambda>fm. Inr (l, fm)))
                     (filter (\<lambda>l. LocaleCode l \<noteq> src) (allLocales lc)))
              (\<lambda>per_locale.
                 let toFill = filter (\<lambda>(l, fm). fm \<noteq> []) per_locale in
                 if toFill = [] then Inr None
                 else Inr (Some \<lparr>older_source = src, older_sourceValues = sourceValues,
                                 older_toFill = toFill\<rparr>)))"

text \<open>\<^verbatim>\<open>patch[f] = (result?.[f] ?? '').toString()\<close> for every missing field, in order.\<close>

fun flat_patch_from :: "json \<Rightarrow> string list \<Rightarrow> json \<Rightarrow> error + json" where
  "flat_patch_from result [] patch = Inr patch"
| "flat_patch_from result (f # fs) patch =
     bindE (string_or_empty (opt_prop (Some result) f))
       (\<lambda>proposed. flat_patch_from result fs (set_prop patch f (JStr proposed)))"

definition flat_patch :: "json \<Rightarrow> string list \<Rightarrow> error + json" where
  "flat_patch result missing = flat_patch_from result missing (JObj [])"

definition fill_one_older :: "config \<Rightarrow> env \<Rightarrow> older_plan \<Rightarrow> nat \<Rightarrow> string \<Rightarrow> string list \<Rightarrow> event list" where
  "fill_one_older cfg e pl n locale missing =
     EvLLM locale missing #
     (case callJSONModel e n \<lparr>from_locale = older_source pl, to_locale = locale,
                              ask_fields = missing, source_values = older_sourceValues pl\<rparr> of
        Inl err \<Rightarrow> [EvErrorLog locale err]
      | Inr result \<Rightarrow>
          (case flat_patch result missing of
             Inl err \<Rightarrow> [EvErrorLog locale err]
           | Inr patch \<Rightarrow>
               if cfg_dryRun cfg then [EvDryRunLog locale patch]
               else EvUpdate locale patch #
                    (case update e n locale patch of
                       Some err \<Rightarrow> [EvErrorLog locale err]
                     | None \<Rightarrow> [])))"

fun fill_loop_older :: "config \<Rightarrow> env \<Rightarrow> older_plan \<Rightarrow> nat \<Rightarrow> (string \<times> string list) list \<Rightarrow> event list" where
  "fill_loop_older cfg e pl n [] = []"
| "fill_loop_older cfg e pl n ((locale, missing) # rest) =
     fill_one_older cfg e pl n locale missing @ fill_loop_older cfg e pl (Suc n) rest"

definition aiLocalizeCollection_older ::
  "config \<Rightarrow> env \<Rightarrow> request \<Rightarrow> json \<Rightarrow> event list \<times> (error + json)" where
  "aiLocalizeCollection_older cfg e req doc =
     (if guarded req then ([], Inr doc)
      else (case req_localization req of
         None \<Rightarrow> ([], Inr doc)
       | Some lc \<Rightarrow>
           if gate_closed cfg doc then ([], Inr doc)
           else (case prepare_older cfg req lc doc of
                   Inl err \<Rightarrow> ([], Inl err)
                 | Inr None \<Rightarrow> ([], Inr doc)
                 | Inr (Some pl) \<Rightarrow> (fill_loop_older cfg e pl 0 (older_toFill pl), Inr doc))))"


section \<open>Example inputs\<close>

text \<open>
  A collection with a localized title, a slug that is not localized and a localized
  rich-text body; three locales; and a record whose English content is complete.
\<close>

definition ex_schema :: "field list" where
  "ex_schema =
     [Field (Some ''title'') True ''text'' [] [],
      Field (Some ''slug'') False ''text'' [] [],
      Field (Some ''body'') True ''richText'' [] []]"

definition ex_localization :: localization where
  "ex_localization =
     \<lparr>locales = [LocaleCode ''en'', LocaleCode ''de'', LocaleCode ''fr''],
      defaultLocale = Some (LocaleCode ''en'')\<rparr>"

definition ex_config :: config where
  "ex_config =
     \<lparr>cfg_fields = [''title''], cfg_sourceLocale = None, cfg_targetLocales = None,
      cfg_guardFlagField = None, cfg_dryRun = False, cfg_skipIfSlateTarget = None\<rparr>"

definition ex_request :: request where
  "ex_request =
     \<lparr>req_headers = Some (JObj []), req_locale = Some ''en'',
      req_localization = Some ex_localization\<rparr>"

definition ex_guarded_request :: request where
  "ex_guarded_request = ex_request\<lparr>req_headers := Some (JObj [(''x-ai-localize'', JStr ''1'')])\<rparr>"

definition ex_lexical :: json where
  "ex_lexical =
     JObj [(''root'', JObj [(''type'', JStr ''root''),
        (''children'', JArr [JObj [(''type'', JStr ''paragraph''),
           (''children'', JArr [JObj [(''type'', JStr ''text''), (''text'', JStr ''Hello ''), (''format'', JNum (Decimal 0 0))],
                                JObj [(''type'', JStr ''text''), (''text'', JStr ''world''), (''format'', JNum (Decimal 1 0))]])]])])]"

definition ex_empty_slate :: json where
  "ex_empty_slate = JArr [JObj [(''type'', JStr ''p''), (''children'', JArr [JObj [(''text'', JStr [])]])]]"

definition ex_doc :: json where
  "ex_doc =
     JObj [(''id'', JNum (Decimal 7 0)),
           (''title'', JObj [(''en'', JStr ''Hello''), (''de'', JStr [])]),
           (''body'', JObj [(''en'', ex_lexical), (''de'', ex_empty_slate), (''fr'', ex_lexical)])]"

text \<open>A model that answers every call, and a store that accepts every write.\<close>

definition ex_env :: env where
  "ex_env =
     \<lparr>findByID = Inr ex_doc,
      callJSONModel = (\<lambda>n r. Inr (JObj [(''title'', JStr ''T''), (''body'', JStr ''B'')])),
      update = (\<lambda>n locale patch. None)\<rparr>"

definition ex_fields :: "string list" where
  "ex_fields = fst (detectLocalizedFieldsWithMeta ex_schema)"

definition ex_meta :: "string \<rightharpoonup> string" where
  "ex_meta = snd (detectLocalizedFieldsWithMeta ex_schema)"

lemma ex_fields_eq: "ex_fields = [''title'', ''body'']"
  by code_simp




definition ex_array_doc :: json where
  "ex_array_doc =
     JObj [(''id'', JNum (Decimal 7 0)),
           (''title'', JObj [(''en'', JStr ''Hello''), (''de'', JArr [])]),
           (''body'', JObj [(''en'', ex_lexical),
                            (''de'', JArr [JObj [(''children'', JArr [JObj [(''text'', JStr [])]])]])])]"

definition ex_env_failing :: env where
  "ex_env_failing =
     \<lparr>findByID = Inr ex_doc,
      callJSONModel = (\<lambda>n r. if n = 0 then Inl LLMFailed
                              else Inr (JObj [(''title'', JStr ''T''), (''body'', JStr ''B'')])),
      update = (\<lambda>n locale patch. Some WriteFailed)\<rparr>"

definition ex_scoped_doc :: json where
  "ex_scoped_doc = JObj [(''id'', JNum (Decimal 7 0)), (''title'', JStr ''Hello'')]"

definition ex_env_read_fails :: env where
  "ex_env_read_fails = ex_env\<lparr>findByID := Inl ReadFailed\<rparr>"






section \<open>The guard\<close>

text \<open>
  Claim C1.  A change event whose request headers carry the guard marker (the header
  \<^verbatim>\<open>x-ai-localize\<close> equal to \<^verbatim>\<open>'1'\<close>) makes either hook return the incoming document at
  once: the list of calls is empty, so there is no read of the record store, no write and
  no call of the language model.
\<close>

theorem guard_returns_at_once:
  assumes "opt_prop (req_headers req) ''x-ai-localize'' = Some (JStr ''1'')"
  shows "aiLocalizeCollection cfg e req collection_fields doc = ([], Inr doc)
       \<and> aiLocalizeCollection_older cfg e req doc = ([], Inr doc)"
  using assms
  by (simp add: aiLocalizeCollection_def aiLocalizeCollection_older_def guarded_def HEADER_GUARD_def)

theorem guard_returns_at_once_witness:
  "opt_prop (req_headers ex_guarded_request) ''x-ai-localize'' = Some (JStr ''1'')
   \<and> aiLocalizeCollection ex_config ex_env ex_guarded_request ex_schema ex_doc = ([], Inr ex_doc)
   \<and> aiLocalizeCollection_older ex_config ex_env ex_guarded_request ex_doc = ([], Inr ex_doc)"
proof -
  have marker: "opt_prop (req_headers ex_guarded_request) ''x-ai-localize'' = Some (JStr ''1'')"
    by (simp add: ex_guarded_request_def ex_request_def opt_prop_def)
  from marker guard_returns_at_once [OF marker, of ex_config ex_env ex_schema ex_doc]
  show ?thesis by simp
qed


section \<open>The option to skip Slate targets\<close>

text \<open>The hook does the same whatever \<^verbatim>\<open>skipIfSlateTarget\<close> is set to.\<close>

lemma fill_one_skip:
  "fill_one (cfg\<lparr>cfg_skipIfSlateTarget := b\<rparr>) e meta pl n locale missing = fill_one cfg e meta pl n locale missing"
  by (simp add: fill_one_def split: sum.splits)

lemma fill_loop_skip: "fill_loop (cfg\<lparr>cfg_skipIfSlateTarget := b\<rparr>) e meta pl n todo = fill_loop cfg e meta pl n todo"
  by (induction todo arbitrary: n) (auto simp: fill_one_skip)

lemma default_locale_skip: "default_locale (cfg\<lparr>cfg_skipIfSlateTarget := b\<rparr>) lc = default_locale cfg lc"
  by (simp add: default_locale_def)

lemma actualSourceLocale_skip:
  "actualSourceLocale (cfg\<lparr>cfg_skipIfSlateTarget := b\<rparr>) lc scores = actualSourceLocale cfg lc scores"
  by (simp add: actualSourceLocale_def default_locale_skip split: option.splits)

lemma requestedTargets_skip: "requestedTargets (cfg\<lparr>cfg_skipIfSlateTarget := b\<rparr>) lc = requestedTargets cfg lc"
  by (simp add: requestedTargets_def)

lemma prepare_skip: "prepare (cfg\<lparr>cfg_skipIfSlateTarget := b\<rparr>) lc fs meta d = prepare cfg lc fs meta d"
  by (simp add: prepare_def actualSourceLocale_skip requestedTargets_skip Let_def cong: if_cong)

lemma gate_closed_skip: "gate_closed (cfg\<lparr>cfg_skipIfSlateTarget := b\<rparr>) doc = gate_closed cfg doc"
  by (simp add: gate_closed_def)

lemma skipIfSlateTarget_ignored:
  "aiLocalizeCollection (cfg\<lparr>cfg_skipIfSlateTarget := b\<rparr>) e req collection_fields doc
   = aiLocalizeCollection cfg e req collection_fields doc"
  by (simp add: aiLocalizeCollection_def fill_loop_skip prepare_skip gate_closed_skip split: option.splits sum.splits list.splits prod.splits)

text \<open>
  Claim C7.  With the option at its default, no write of a rich-text field goes to a target
  locale whose stored value looks like Slate.  The code does not do this: in the example
  record the German body is an empty Slate document, it is found missing, and the write
  to \<^verbatim>\<open>de\<close> carries \<^verbatim>\<open>body\<close>.
\<close>

theorem slate_target_is_overwritten:
  "cfg_skipIfSlateTarget ex_config = None
   \<and> looksLikeSlate (target_value (getByPath (Some ex_doc) ''body'') ''de'')
   \<and> fst (aiLocalizeCollection ex_config ex_env ex_request ex_schema ex_doc) =
       [EvLLM ''de'' [''title'', ''body''],
        EvUpdate ''de''
          (JObj [(''title'', JStr ''T''),
                 (''body'', JObj [(''root'', JObj [(''type'', JStr ''root''),
                    (''children'', JArr [JObj [(''type'', JStr ''paragraph''),
                       (''children'', JArr [JObj [(''type'', JStr ''text''), (''text'', JStr ''B''), (''format'', JNum (Decimal 0 0))],
                                            JObj [(''type'', JStr ''text''), (''text'', JStr []), (''format'', JNum (Decimal 1 0))]])]])])])]),
        EvLLM ''fr'' [''title''],
        EvUpdate ''fr'' (JObj [(''title'', JStr ''T'')])]"
  by code_simp


section \<open>Target locales of the older hook\<close>

definition ex_config_only_de :: config where
  "ex_config_only_de = ex_config\<lparr>cfg_targetLocales := Some [''de'']\<rparr>"

text \<open>
  A framework whose default locale is a locale object, and a request without a locale.
\<close>

definition ex_request_object_default :: request where
  "ex_request_object_default =
     \<lparr>req_headers = Some (JObj []), req_locale = None,
      req_localization = Some (ex_localization\<lparr>defaultLocale := Some (LocaleObject ''en'')\<rparr>)\<rparr>"

text \<open>
  The older hook takes the locale object itself for the source locale.  No locale code is
  equal to it, so for a locale-scoped document every locale is worked on, the default one
  too; with the code \<^verbatim>\<open>en\<close> for a default, \<^verbatim>\<open>en\<close> is left out.
\<close>

lemma older_hook_object_default:
  "sourceLocale ex_config (ex_localization\<lparr>defaultLocale := Some (LocaleObject ''en'')\<rparr>) = LocaleObject ''en''
   \<and> fst (aiLocalizeCollection_older ex_config ex_env ex_request_object_default ex_scoped_doc)
       = [EvLLM ''en'' [''title''], EvUpdate ''en'' (JObj [(''title'', JStr ''T'')]),
          EvLLM ''de'' [''title''], EvUpdate ''de'' (JObj [(''title'', JStr ''T'')]),
          EvLLM ''fr'' [''title''], EvUpdate ''fr'' (JObj [(''title'', JStr ''T'')])]
   \<and> fst (aiLocalizeCollection_older ex_config ex_env (ex_request\<lparr>req_locale := None\<rparr>) ex_scoped_doc)
       = [EvLLM ''de'' [''title''], EvUpdate ''de'' (JObj [(''title'', JStr ''T'')]),
          EvLLM ''fr'' [''title''], EvUpdate ''fr'' (JObj [(''title'', JStr ''T'')])]"
  by code_simp

text \<open>
  The rich-text aware hook keeps to the requested locales: every locale of its
  \<^verbatim>\<open>toFill\<close> list is a requested target other than the source.
\<close>

lemma mapE_tagged:
  "mapE (\<lambda>l. bindE (g l) (\<lambda>fm. Inr (l, fm))) ls = Inr r \<Longrightarrow> map fst r = ls"
proof (induction ls arbitrary: r)
  case Nil
  then show ?case by simp
next
  case (Cons l ls)
  then show ?case
    by (cases "g l"; cases "mapE (\<lambda>l. bindE (g l) (\<lambda>fm. Inr (l, fm))) ls") (auto simp: bindE_def)
qed

lemma plan_locales_are_targets:
  assumes "prepare cfg lc fs meta d = Inr (Some pl)"
  shows "set (map fst (plan_toFill pl)) \<subseteq> set (requestedTargets cfg lc) - {plan_source pl}"
proof -
  from assms obtain scored per_target where
    pt: "mapE (\<lambda>l. bindE (fieldsMissing meta d fs l) (\<lambda>fm. Inr (l, fm)))
           (filter (\<lambda>l. l \<noteq> actualSourceLocale cfg lc (from_entries scored)) (requestedTargets cfg lc)) = Inr per_target"
    and src: "plan_source pl = actualSourceLocale cfg lc (from_entries scored)"
    and tf: "plan_toFill pl = filter (\<lambda>(l, fm). fm \<noteq> []) per_target"
    unfolding prepare_def
    by (auto simp: bindE_def Let_def split: sum.splits if_splits)
  from mapE_tagged[OF pt] have "set (map fst per_target) \<subseteq> set (requestedTargets cfg lc) - {plan_source pl}"
    using src by auto
  moreover have "set (map fst (plan_toFill pl)) \<subseteq> set (map fst per_target)"
    unfolding tf by auto
  ultimately show ?thesis by blast
qed

text \<open>
  Claim C6.  Work is done for the configured target locales only (all locales when none
  are configured), the source locale excluded.  The older hook computes that list and then
  loops over all locales: asked to fill \<^verbatim>\<open>de\<close> only, it also calls the model for
  \<^verbatim>\<open>fr\<close> and writes to it.
\<close>

theorem older_hook_ignores_target_locales:
  "cfg_targetLocales ex_config_only_de = Some [''de'']
   \<and> fst (aiLocalizeCollection_older ex_config_only_de ex_env ex_request ex_doc) =
       [EvLLM ''de'' [''title''], EvUpdate ''de'' (JObj [(''title'', JStr ''T'')]),
        EvLLM ''fr'' [''title''], EvUpdate ''fr'' (JObj [(''title'', JStr ''T'')])]"
  by code_simp


section \<open>Choice of the source locale\<close>

text \<open>
  The score of a locale as a number: what \<^verbatim>\<open>contentScore\<close> returns.
\<close>

definition content_score :: "json option \<Rightarrow> string list \<Rightarrow> (string \<rightharpoonup> string) \<Rightarrow> string \<Rightarrow> nat" where
  "content_score docAllLocales fieldsToLocalize meta l =
     (case contentScore docAllLocales fieldsToLocalize l meta of Inr n \<Rightarrow> n | Inl err \<Rightarrow> 0)"

text \<open>
  In the words of the specification: \<open>b\<close> is the locale with the highest score, and of the
  locales with that score the first in the configured order.
\<close>

definition first_best :: "string list \<Rightarrow> (string \<Rightarrow> nat) \<Rightarrow> string \<Rightarrow> bool" where
  "first_best ls sc b =
     (b \<in> set ls \<and> (\<forall>l\<in>set ls. sc l \<le> sc b) \<and> (\<forall>l\<in>set (takeWhile (\<lambda>l. l \<noteq> b) ls). sc l < sc b))"

lemma update_fresh: "k \<notin> fst ` set al \<Longrightarrow> AList.update k v al = al @ [(k, v)]"
  by (induction al) auto

lemma fold_update_distinct:
  "distinct (map fst (acc @ ps)) \<Longrightarrow> fold (\<lambda>(k, v) a. AList.update k v a) ps acc = acc @ ps"
proof (induction ps arbitrary: acc)
  case Nil
  then show ?case by simp
next
  case (Cons p ps)
  obtain k v where p: "p = (k, v)" by (cases p)
  from Cons.prems p have fresh: "k \<notin> fst ` set acc" by auto
  from Cons.prems p have "distinct (map fst ((acc @ [(k, v)]) @ ps))" by auto
  from Cons.IH [OF this] show ?case by (simp add: p update_fresh [OF fresh])
qed

lemma from_entries_distinct: "distinct (map fst ps) \<Longrightarrow> from_entries ps = ps"
  using fold_update_distinct [of "[]" ps] by (simp add: from_entries_def)

lemma object_entries_plain:
  "\<forall>(k, v)\<in>set kvs. parse_index k = None \<Longrightarrow> object_entries kvs = kvs"
proof -
  assume a: "\<forall>(k, v)\<in>set kvs. parse_index k = None"
  then have 1: "filter (\<lambda>(k, v). parse_index k \<noteq> None) kvs = []"
    by (auto simp: filter_empty_conv)
  from a have 2: "filter (\<lambda>(k, v). parse_index k = None) kvs = kvs"
    by (auto simp: filter_id_conv)
  show ?thesis unfolding object_entries_def 1 2 by simp
qed

lemma sort_key_head:
  "sort_key f xs = y # ys \<Longrightarrow>
     y \<in> set xs \<and> (\<forall>x\<in>set xs. f y \<le> f x) \<and> (\<forall>x\<in>set (takeWhile (\<lambda>x. x \<noteq> y) xs). f y < f x)"
proof (induction xs arbitrary: y ys)
  case Nil
  then show ?case by simp
next
  case (Cons x xs)
  show ?case
  proof (cases "sort_key f xs")
    case Nil
    then have "xs = []" using length_sort [of f xs] by (metis length_0_conv)
    with Cons.prems show ?thesis by simp
  next
    case (Cons z zs)
    note IH = Cons.IH [OF Cons]
    show ?thesis
    proof (cases "f x \<le> f z")
      case True
      with Cons Cons.prems have "y = x" by simp
      with True IH show ?thesis by auto
    next
      case False
      with Cons Cons.prems have "y = z" by simp
      with False IH show ?thesis by auto
    qed
  qed
qed


lemma bestLocale_first_best:
  assumes d: "distinct ls" and plain: "\<forall>l\<in>set ls. parse_index l = None"
    and best: "bestLocale (from_entries (map (\<lambda>l. (l, sc l)) ls)) = Some b"
  shows "first_best ls sc b"
proof -
  let ?g = "\<lambda>l. (l, sc l)"
  have fe: "from_entries (map ?g ls) = map ?g ls"
    using d by (intro from_entries_distinct) (simp add: comp_def)
  have oe: "object_entries (map ?g ls) = map ?g ls"
    using plain by (intro object_entries_plain) auto
  from best obtain n rest where hd: "sort_key (\<lambda>(l, n). - int n) (map ?g ls) = (b, n) # rest"
    by (auto simp: bestLocale_def fe oe split: list.splits)
  note H = sort_key_head [OF hd]
  from H have mem: "(b, n) \<in> set (map ?g ls)" by blast
  then have n: "n = sc b" and b: "b \<in> set ls" by auto
  from H have le: "\<forall>l\<in>set ls. sc l \<le> sc b" by (auto simp: n)
  have tw: "takeWhile (\<lambda>x. x \<noteq> (b, n)) (map ?g ls) = map ?g (takeWhile (\<lambda>l. l \<noteq> b) ls)"
    by (simp add: takeWhile_map comp_def n)
  from H have "\<forall>x\<in>set (takeWhile (\<lambda>x. x \<noteq> (b, n)) (map ?g ls)). (case (b, n) of (l, n) \<Rightarrow> - int n) < (case x of (l, n) \<Rightarrow> - int n)"
    by blast
  then have lt: "\<forall>l\<in>set (takeWhile (\<lambda>l. l \<noteq> b) ls). sc l < sc b"
    unfolding tw by (auto simp: n)
  from b le lt show ?thesis by (simp add: first_best_def)
qed

lemma length_object_entries: "length (object_entries kvs) = length kvs"
  using sum_length_filter_compl [of "\<lambda>(k, v). parse_index k \<noteq> None" kvs]
  by (simp add: object_entries_def case_prod_unfold)

lemma bestLocale_None:
  "bestLocale (from_entries (map (\<lambda>l. (l, sc l)) ls)) = None \<Longrightarrow> distinct ls \<Longrightarrow> ls = []"
proof -
  let ?g = "\<lambda>l. (l, sc l)"
  assume a: "bestLocale (from_entries (map ?g ls)) = None" and d: "distinct ls"
  have fe: "from_entries (map ?g ls) = map ?g ls"
    using d by (intro from_entries_distinct) (simp add: comp_def)
  from a have "sort_key (\<lambda>(l, n). - int n) (object_entries (map ?g ls)) = []"
    by (auto simp: bestLocale_def fe split: list.splits)
  then have "object_entries (map ?g ls) = []"
    using length_sort [of "\<lambda>(l, n). - int n" "object_entries (map ?g ls)"] by simp
  then show "ls = []"
    using length_object_entries [of "map ?g ls"] by simp
qed


lemma score_table_shape:
  "score_table d fs meta ls = Inr scored \<Longrightarrow> scored = map (\<lambda>l. (l, content_score d fs meta l)) ls"
  unfolding score_table_def
  by (induction ls arbitrary: scored)
     (auto simp: bindE_def content_score_def split: sum.splits)

lemma positive_score_map:
  "positive_score (from_entries (map (\<lambda>l. (l, sc l)) ls)) s = (s \<in> set ls \<and> 0 < sc s)" if "distinct ls"
proof -
  have fe: "from_entries (map (\<lambda>l. (l, sc l)) ls) = map (\<lambda>l. (l, sc l)) ls"
    using that by (intro from_entries_distinct) (simp add: comp_def)
  have "map_of (map (\<lambda>l. (l, sc l)) ls) s = (if s \<in> set ls then Some (sc s) else None)"
    by (induction ls) auto
  then show ?thesis by (simp add: positive_score_def fe)
qed

lemma first_best_all_zero:
  assumes "first_best ls sc b" and "\<forall>l\<in>set ls. sc l = 0"
  shows "b = hd ls"
proof (cases ls)
  case Nil
  with assms show ?thesis by (simp add: first_best_def)
next
  case (Cons x xs)
  show ?thesis
  proof (rule ccontr)
    assume "b \<noteq> hd ls"
    with Cons have "x \<in> set (takeWhile (\<lambda>l. l \<noteq> b) ls)" by auto
    with assms(1) have "sc x < sc b" by (auto simp: first_best_def)
    moreover from assms have "sc b = 0" by (auto simp: first_best_def)
    ultimately show False by simp
  qed
qed

text \<open>
  What the selection does, for distinct locale codes that are neither empty nor array
  indices: a configured source locale with a positive score is selected; otherwise, if some
  locale has a positive score, the locale with the highest score, the first in the
  configured order among equals; if all scores are 0 and no source locale is configured,
  the default locale of the framework (\<^verbatim>\<open>'en'\<close> if it has none); if all scores are 0
  and a source locale is configured, the first configured locale.
\<close>

lemma source_locale_rule:
  fixes cfg :: config and lc :: localization
  defines "ls \<equiv> allLocales lc"
  assumes scored: "score_table docAllLocales fieldsToLocalize meta ls = Inr scored"
    and codes: "distinct ls" "\<forall>l\<in>set ls. l \<noteq> [] \<and> parse_index l = None"
  defines "sc \<equiv> content_score docAllLocales fieldsToLocalize meta"
    and "src \<equiv> actualSourceLocale cfg lc (from_entries scored)"
    and "explicit \<equiv> (case cfg_sourceLocale cfg of Some s \<Rightarrow> s \<noteq> [] | None \<Rightarrow> False)"
  shows "(\<forall>s. cfg_sourceLocale cfg = Some s \<and> s \<in> set ls \<and> 0 < sc s \<longrightarrow> src = s)
       \<and> ((\<forall>s. cfg_sourceLocale cfg = Some s \<longrightarrow> \<not> (s \<in> set ls \<and> 0 < sc s)) \<and> (\<exists>l\<in>set ls. 0 < sc l)
            \<longrightarrow> first_best ls sc src)
       \<and> (\<not> explicit \<and> (\<forall>l\<in>set ls. sc l = 0) \<longrightarrow> src = framework_default lc)
       \<and> (explicit \<and> (\<forall>l\<in>set ls. sc l = 0) \<and> ls \<noteq> [] \<longrightarrow> src = hd ls)"
proof -
  let ?scores = "from_entries (map (\<lambda>l. (l, sc l)) ls)"
  have shape: "from_entries scored = ?scores"
    using score_table_shape [OF scored] by (simp add: sc_def)
  have pos: "\<And>s. positive_score ?scores s = (s \<in> set ls \<and> 0 < sc s)"
    using codes(1) by (rule positive_score_map)
  have best: "\<And>b. bestLocale ?scores = Some b \<Longrightarrow> first_best ls sc b"
    using codes by (intro bestLocale_first_best) auto
  have none: "bestLocale ?scores = None \<Longrightarrow> ls = []"
    using codes(1) by (intro bestLocale_None)
  have nonempty: "\<And>b. first_best ls sc b \<Longrightarrow> b \<noteq> []"
    using codes(2) by (auto simp: first_best_def)
  have c1: "\<forall>s. cfg_sourceLocale cfg = Some s \<and> s \<in> set ls \<and> 0 < sc s \<longrightarrow> src = s"
    using codes(2) by (auto simp: src_def shape actualSourceLocale_def or_else_def pos)
  have c2: "(\<forall>s. cfg_sourceLocale cfg = Some s \<longrightarrow> \<not> (s \<in> set ls \<and> 0 < sc s)) \<and> (\<exists>l\<in>set ls. 0 < sc l)
            \<longrightarrow> first_best ls sc src"
  proof (intro impI, elim conjE bexE)
    fix l assume no: "\<forall>s. cfg_sourceLocale cfg = Some s \<longrightarrow> \<not> (s \<in> set ls \<and> 0 < sc s)"
      and l: "l \<in> set ls" "0 < sc l"
    from l none obtain b where b: "bestLocale ?scores = Some b"
      by (cases "bestLocale ?scores") auto
    note fb = best [OF b]
    from fb l have "0 < sc b" by (auto simp: first_best_def)
    with fb have posb: "positive_score ?scores b" by (simp add: pos first_best_def)
    from no b posb nonempty [OF fb] have "src = b"
      by (auto simp: src_def shape actualSourceLocale_def or_else_def pos split: option.splits)
    with fb show "first_best ls sc src" by simp
  qed
  have c3: "\<not> explicit \<and> (\<forall>l\<in>set ls. sc l = 0) \<longrightarrow> src = framework_default lc"
    by (auto simp: explicit_def src_def shape actualSourceLocale_def default_locale_def or_else_def pos
             dest!: best split: option.splits simp: first_best_def)
  have c4: "explicit \<and> (\<forall>l\<in>set ls. sc l = 0) \<and> ls \<noteq> [] \<longrightarrow> src = hd ls"
  proof (intro impI, elim conjE)
    assume e: explicit and z: "\<forall>l\<in>set ls. sc l = 0" and ne: "ls \<noteq> []"
    from ne none obtain b where b: "bestLocale ?scores = Some b"
      by (cases "bestLocale ?scores") auto
    note fb = best [OF b]
    from e z b nonempty [OF fb] have "src = b"
      by (auto simp: explicit_def src_def shape actualSourceLocale_def or_else_def pos split: option.splits)
    with first_best_all_zero [OF fb z] show "src = hd ls" by simp
  qed
  from c1 c2 c3 c4 show ?thesis by blast
qed



section \<open>Detection of missing fields\<close>

text \<open>
  A string is blank when it is empty or made of white space only, the white space being
  what \<^verbatim>\<open>trim\<close> strips.
\<close>

definition whitespace_only :: "string \<Rightarrow> bool" where
  "whitespace_only s = list_all is_ws s"

text \<open>
  The rule of the specification, as amended below: when a field of a given type with a
  given target value counts as missing.
\<close>

definition reported_missing :: "string option \<Rightarrow> json option \<Rightarrow> bool" where
  "reported_missing kind val =
     (if kind = Some ''richText'' then
        nullish val
        \<or> (looksLikeSlate val \<and> whitespace_only (slateToPlain val))
        \<or> (looksLikeLexical val \<and> (case lexicalToPlain val of Inr s \<Rightarrow> whitespace_only s | Inl err \<Rightarrow> False))
        \<or> empty_array val
        \<or> (case str_of val of Some s \<Rightarrow> whitespace_only s | None \<Rightarrow> False)
        \<or> (\<not> nullish val \<and> \<not> typeof_string val \<and> \<not> isArray val \<and> \<not> looksLikeLexical val)
      else
        nullish val
        \<or> (case str_of val of Some s \<Rightarrow> whitespace_only s | None \<Rightarrow> False)
        \<or> empty_array val)"

lemma dropWhile_all: "dropWhile P xs = [] \<longleftrightarrow> list_all P xs"
  by (induction xs) auto

lemma dropWhile_stuck: "list_all P (dropWhile P xs) \<Longrightarrow> dropWhile P xs = []"
  by (induction xs) (auto split: if_splits)

lemma trim_empty_iff: "trim s = [] \<longleftrightarrow> whitespace_only s"
proof
  assume "trim s = []"
  then have "dropWhile is_ws (rev (dropWhile is_ws s)) = []" by (simp add: trim_def)
  then have "list_all is_ws (rev (dropWhile is_ws s))" by (simp only: dropWhile_all)
  then have "list_all is_ws (dropWhile is_ws s)" by (simp only: list_all_rev)
  then have "dropWhile is_ws s = []" by (rule dropWhile_stuck)
  then show "whitespace_only s" by (simp only: dropWhile_all whitespace_only_def)
next
  assume "whitespace_only s"
  then have d: "dropWhile is_ws s = []" by (simp only: dropWhile_all whitespace_only_def)
  show "trim s = []" unfolding trim_def d by simp
qed

text \<open>A string of no-break spaces is blank, and a field that holds it is found empty.\<close>

lemma no_break_space_is_blank:
  "trim [CHR 0xA0, CHR ''a'', CHR 0x20, CHR 0xA0] = ''a''
   \<and> whitespace_only [CHR 0xA0, CHR 0xA0]
   \<and> field_empty (Some ''text'') (Some (JStr [CHR 0xA0, CHR 0xA0])) = Inr True
   \<and> field_empty (Some ''richText'') (Some (JStr [CHR 0xA0, CHR 0xA0])) = Inr True"
  by code_simp

lemma slateToPlain_empty: "empty_array val \<Longrightarrow> slateToPlain val = []"
  by (auto simp: empty_array_def slateToPlain_def trim_def split: option.splits)

lemma mapE_total: "(\<And>x. x \<in> set xs \<Longrightarrow> f x = Inr (g x)) \<Longrightarrow> mapE f xs = Inr (map g xs)"
  by (induction xs) auto

lemma slate_facts: "looksLikeSlate val \<Longrightarrow> isArray val \<and> \<not> nullish val \<and> \<not> looksLikeLexical val \<and> str_of val = None"
  by (cases val rule: truthy.cases)
     (auto simp: looksLikeSlate_def arr_of_def looksLikeLexical_def opt_prop_def str_of_def
         parse_index_def digit_of_def)

lemma lexical_facts: "looksLikeLexical val \<Longrightarrow> \<not> nullish val \<and> str_of val = None \<and> \<not> typeof_string val"
  by (cases val rule: truthy.cases) (auto simp: looksLikeLexical_def str_of_def)

lemma lexical_not_array: "looksLikeLexical val \<Longrightarrow> \<not> isArray val \<and> \<not> empty_array val"
  by (cases val rule: truthy.cases)
     (auto simp: looksLikeLexical_def opt_prop_def empty_array_def arr_of_def)

lemma field_empty_reported:
  assumes "kind = Some ''richText'' \<and> looksLikeLexical val \<longrightarrow> \<not> isl (lexicalToPlain val)"
  shows "field_empty kind val = Inr (reported_missing kind val)"
proof (cases "kind = Some ''richText''")
  case False
  then show ?thesis
    by (auto simp: field_empty_def reported_missing_def blank_def trim_empty_iff split: option.splits)
next
  case rich: True
  consider (null) "nullish val"
    | (slate) "\<not> nullish val" "looksLikeSlate val"
    | (lex) "\<not> nullish val" "\<not> looksLikeSlate val" "looksLikeLexical val"
    | (other) "\<not> nullish val" "\<not> looksLikeSlate val" "\<not> looksLikeLexical val"
    by blast
  then show ?thesis
  proof cases
    case null
    with rich show ?thesis by (simp add: field_empty_def reported_missing_def)
  next
    case slate
    with rich slate_facts [OF slate(2)] show ?thesis
      by (auto simp: field_empty_def reported_missing_def trim_empty_iff whitespace_only_def
            dest: slateToPlain_empty)
  next
    case lex
    with assms rich obtain s where s: "lexicalToPlain val = Inr s"
      by (cases "lexicalToPlain val") auto
    with rich lex lexical_facts [OF lex(3)] lexical_not_array [OF lex(3)] show ?thesis
      by (auto simp: field_empty_def reported_missing_def trim_empty_iff bindE_def)
  next
    case other
    with rich show ?thesis
      by (cases val rule: truthy.cases)
         (auto simp: field_empty_def reported_missing_def trim_empty_iff blank_def empty_array_def
            str_of_def arr_of_def)
  qed
qed

text \<open>
  Claim C5, as stated, reports a plain text field exactly when its value is absent or a
  blank string, and reports every rich-text value that is neither a string nor a recognized
  document.  In the example the German title is an empty array (neither absent nor a
  string) and is reported; the German body is an array of nodes without a type (not a
  string, not recognized) and is not reported.
\<close>

theorem missing_detection_differs:
  "target_value (getByPath (Some ex_array_doc) ''title'') ''de'' = Some (JArr [])
   \<and> ex_meta ''title'' = Some ''text''
   \<and> target_value (getByPath (Some ex_array_doc) ''body'') ''de''
       = Some (JArr [JObj [(''children'', JArr [JObj [(''text'', JStr [])]])]])
   \<and> ex_meta ''body'' = Some ''richText''
   \<and> \<not> looksLikeSlate (target_value (getByPath (Some ex_array_doc) ''body'') ''de'')
   \<and> \<not> looksLikeLexical (target_value (getByPath (Some ex_array_doc) ''body'') ''de'')
   \<and> fieldsMissing ex_meta (Some ex_array_doc) ex_fields ''de'' = Inr [''title'']"
  by code_simp


text \<open>
  Claim C5, amended.  For a target locale the hook reports exactly the fields for which
  \<open>reported_missing\<close> holds, in the order of the field list: a plain or multiline text
  field when its value is absent, a blank string or an empty array; a rich-text field when
  its value is absent, a recognized document whose flattened text is blank, an empty
  array, a blank string, or any other value that is neither a string nor an array nor a
  recognized document.  (Flattening a Lexical value with malformed children throws; the
  hypothesis excludes that.)
\<close>

theorem missing_fields_reported:
  assumes "\<forall>f\<in>set fieldsToLocalize.
             meta f = Some ''richText'' \<and> looksLikeLexical (target_value (getByPath docAllLocales f) locale)
             \<longrightarrow> \<not> isl (lexicalToPlain (target_value (getByPath docAllLocales f) locale))"
  shows "fieldsMissing meta docAllLocales fieldsToLocalize locale
         = Inr (filter (\<lambda>f. reported_missing (meta f) (target_value (getByPath docAllLocales f) locale))
                  fieldsToLocalize)"
proof -
  let ?tv = "\<lambda>f. target_value (getByPath docAllLocales f) locale"
  let ?g = "\<lambda>f. (f, reported_missing (meta f) (?tv f))"
  have "mapE (\<lambda>f. bindE (field_empty (meta f) (?tv f)) (\<lambda>e. Inr (f, e))) fieldsToLocalize
        = Inr (map ?g fieldsToLocalize)"
  proof (rule mapE_total)
    fix f assume "f \<in> set fieldsToLocalize"
    with assms have "field_empty (meta f) (?tv f) = Inr (reported_missing (meta f) (?tv f))"
      by (intro field_empty_reported) auto
    then show "bindE (field_empty (meta f) (?tv f)) (\<lambda>e. Inr (f, e)) = Inr (?g f)"
      by (simp add: bindE_def)
  qed
  moreover have "map fst (filter snd (map ?g fieldsToLocalize))
                 = filter (\<lambda>f. reported_missing (meta f) (?tv f)) fieldsToLocalize"
    by (induction fieldsToLocalize) auto
  ultimately show ?thesis by (simp add: fieldsMissing_def bindE_def)
qed


theorem missing_fields_reported_witness:
  "list_all (\<lambda>f. \<not> isl (lexicalToPlain (target_value (getByPath (Some ex_doc) f) ''fr''))) ex_fields
   \<and> looksLikeLexical (target_value (getByPath (Some ex_doc) ''body'') ''fr'')
   \<and> fieldsMissing ex_meta (Some ex_doc) ex_fields ''fr''
       = Inr (filter (\<lambda>f. reported_missing (ex_meta f) (target_value (getByPath (Some ex_doc) f) ''fr'')) ex_fields)
   \<and> filter (\<lambda>f. reported_missing (ex_meta f) (target_value (getByPath (Some ex_doc) f) ''fr'')) ex_fields
       = [''title'']"
proof -
  have ok: "list_all (\<lambda>f. \<not> isl (lexicalToPlain (target_value (getByPath (Some ex_doc) f) ''fr''))) ex_fields"
    by code_simp
  then have h: "\<forall>f\<in>set ex_fields.
      ex_meta f = Some ''richText'' \<and> looksLikeLexical (target_value (getByPath (Some ex_doc) f) ''fr'')
      \<longrightarrow> \<not> isl (lexicalToPlain (target_value (getByPath (Some ex_doc) f) ''fr''))"
    by (simp add: list_all_iff)
  have lex: "looksLikeLexical (target_value (getByPath (Some ex_doc) ''body'') ''fr'')"
    by code_simp
  have val: "filter (\<lambda>f. reported_missing (ex_meta f) (target_value (getByPath (Some ex_doc) f) ''fr'')) ex_fields
       = [''title'']"
    by code_simp
  from ok lex missing_fields_reported [OF h] val show ?thesis by blast
qed



section \<open>Failures while a target locale is handled\<close>

text \<open>The pairs for which the model was called, and the writes, in order.\<close>

fun attempts :: "event list \<Rightarrow> (string \<times> string list) list" where
  "attempts [] = []"
| "attempts (EvLLM locale missing # evs) = (locale, missing) # attempts evs"
| "attempts (ev # evs) = attempts evs"


lemma attempts_append: "attempts (xs @ ys) = attempts xs @ attempts ys"
  by (induction xs rule: attempts.induct) auto

lemma attempts_fill_one: "attempts (fill_one cfg e meta pl n locale missing) = [(locale, missing)]"
  by (simp add: fill_one_def split: sum.splits option.splits)

lemma attempts_fill_loop: "attempts (fill_loop cfg e meta pl n todo) = todo"
  by (induction todo arbitrary: n) (auto simp: attempts_append attempts_fill_one)

lemma attempts_fill_one_older: "attempts (fill_one_older cfg e pl n locale missing) = [(locale, missing)]"
  by (simp add: fill_one_older_def Let_def split: sum.splits option.splits)

lemma attempts_fill_loop_older: "attempts (fill_loop_older cfg e pl n todo) = todo"
  by (induction todo arbitrary: n) (auto simp: attempts_append attempts_fill_one_older)

lemma hook_result_independent:
  assumes "findByID e' = findByID e"
  shows "snd (aiLocalizeCollection cfg e' req collection_fields doc)
           = snd (aiLocalizeCollection cfg e req collection_fields doc)
       \<and> attempts (fst (aiLocalizeCollection cfg e' req collection_fields doc))
           = attempts (fst (aiLocalizeCollection cfg e req collection_fields doc))"
  using assms
  by (auto simp: aiLocalizeCollection_def attempts_fill_loop
           split: option.splits prod.splits list.splits sum.splits)

lemma hook_returns_after_attempt:
  "attempts (fst (aiLocalizeCollection cfg e req collection_fields doc)) \<noteq> []
   \<Longrightarrow> snd (aiLocalizeCollection cfg e req collection_fields doc) = Inr doc"
  by (auto simp: aiLocalizeCollection_def attempts_fill_loop
           split: option.splits prod.splits list.splits sum.splits if_splits)

lemma older_hook_result_independent:
  "snd (aiLocalizeCollection_older cfg e' req doc) = snd (aiLocalizeCollection_older cfg e req doc)
   \<and> attempts (fst (aiLocalizeCollection_older cfg e' req doc))
       = attempts (fst (aiLocalizeCollection_older cfg e req doc))"
  by (auto simp: aiLocalizeCollection_older_def attempts_fill_loop_older
           split: option.splits prod.splits list.splits sum.splits)

lemma older_hook_returns_after_attempt:
  "attempts (fst (aiLocalizeCollection_older cfg e req doc)) \<noteq> []
   \<Longrightarrow> snd (aiLocalizeCollection_older cfg e req doc) = Inr doc"
  by (auto simp: aiLocalizeCollection_older_def attempts_fill_loop_older
           split: option.splits prod.splits list.splits sum.splits if_splits)


text \<open>
  Claim C9, as stated, lets no exception leave the hook.  The rich-text aware hook reads
  the all-locale view outside any \<^verbatim>\<open>try\<close>: when the changed document is locale-scoped
  and the read is rejected, the exception leaves the hook.
\<close>

theorem rejected_read_leaves_the_hook:
  "aiLocalizeCollection ex_config ex_env_read_fails ex_request ex_schema ex_scoped_doc
   = ([EvFindByID], Inl ReadFailed)"
  by code_simp


text \<open>
  Claim C9, amended.  A failure while one pair of target locale and missing fields is
  handled (the call of the model, the building of the patch, the write) is caught there:
  what either hook returns and the pairs it attempts are the same however the model and
  the writes behave, and an invocation that attempts a pair returns the incoming document.
\<close>

theorem pair_failures_are_contained:
  "(findByID e' = findByID e \<longrightarrow>
      snd (aiLocalizeCollection cfg e' req collection_fields doc)
        = snd (aiLocalizeCollection cfg e req collection_fields doc)
      \<and> attempts (fst (aiLocalizeCollection cfg e' req collection_fields doc))
        = attempts (fst (aiLocalizeCollection cfg e req collection_fields doc)))
   \<and> (attempts (fst (aiLocalizeCollection cfg e req collection_fields doc)) \<noteq> []
        \<longrightarrow> snd (aiLocalizeCollection cfg e req collection_fields doc) = Inr doc)
   \<and> snd (aiLocalizeCollection_older cfg e' req doc) = snd (aiLocalizeCollection_older cfg e req doc)
   \<and> attempts (fst (aiLocalizeCollection_older cfg e' req doc))
        = attempts (fst (aiLocalizeCollection_older cfg e req doc))
   \<and> (attempts (fst (aiLocalizeCollection_older cfg e req doc)) \<noteq> []
        \<longrightarrow> snd (aiLocalizeCollection_older cfg e req doc) = Inr doc)"
  using hook_result_independent [of e' e cfg req collection_fields doc]
    hook_returns_after_attempt [of cfg e req collection_fields doc]
    older_hook_result_independent [of cfg e' req doc e]
    older_hook_returns_after_attempt [of cfg e req doc]
  by blast


theorem pair_failures_are_contained_witness:
  "findByID ex_env_failing = findByID ex_env
   \<and> aiLocalizeCollection ex_config ex_env_failing ex_request ex_schema ex_doc
       = ([EvLLM ''de'' [''title'', ''body''], EvErrorLog ''de'' LLMFailed,
           EvLLM ''fr'' [''title''], EvUpdate ''fr'' (JObj [(''title'', JStr ''T'')]),
           EvErrorLog ''fr'' WriteFailed],
          Inr ex_doc)
   \<and> attempts (fst (aiLocalizeCollection ex_config ex_env_failing ex_request ex_schema ex_doc))
       = attempts (fst (aiLocalizeCollection ex_config ex_env ex_request ex_schema ex_doc))
   \<and> snd (aiLocalizeCollection ex_config ex_env_failing ex_request ex_schema ex_doc)
       = snd (aiLocalizeCollection ex_config ex_env ex_request ex_schema ex_doc)"
proof -
  have same: "findByID ex_env_failing = findByID ex_env"
    by (simp add: ex_env_failing_def ex_env_def)
  have run: "aiLocalizeCollection ex_config ex_env_failing ex_request ex_schema ex_doc
       = ([EvLLM ''de'' [''title'', ''body''], EvErrorLog ''de'' LLMFailed,
           EvLLM ''fr'' [''title''], EvUpdate ''fr'' (JObj [(''title'', JStr ''T'')]),
           EvErrorLog ''fr'' WriteFailed],
          Inr ex_doc)"
    by code_simp
  from same run
    pair_failures_are_contained [of ex_env_failing ex_env ex_config ex_request ex_schema ex_doc]
  show ?thesis by blast
qed



section \<open>A record with nothing left to fill\<close>














section \<open>What a patch assigns\<close>

text \<open>
  Reading a list of path parts, as \<^verbatim>\<open>getByPath\<close> does after the split.  A path is
  \<open>clear\<close> in an object when every part before its last one is absent or holds an object:
  \<^verbatim>\<open>setByPath\<close> then only adds keys on its way down.
\<close>

definition get_parts :: "json option \<Rightarrow> string list \<Rightarrow> json option" where
  "get_parts obj parts = foldl path_step obj parts"

fun clear :: "json \<Rightarrow> string list \<Rightarrow> bool" where
  "clear node [] = True"
| "clear node [p] = True"
| "clear node (p # q # ps) =
     (case get_prop node p of
        None \<Rightarrow> True
      | Some (JObj kvs) \<Rightarrow> clear (JObj kvs) (q # ps)
      | Some other \<Rightarrow> False)"



lemma get_parts_Nil [simp]: "get_parts v [] = v"
  by (simp add: get_parts_def)

lemma get_parts_None [simp]: "get_parts None ps = None"
  by (induction ps) (auto simp: get_parts_def path_step_def)

lemma get_parts_Cons_obj [simp]: "get_parts (Some (JObj kvs)) (p # ps) = get_parts (map_of kvs p) ps"
  by (simp add: get_parts_def path_step_def)


lemma clear_empty_obj [simp]: "clear (JObj []) ps"
  by (induction "JObj []" ps rule: clear.induct) auto























lemma number_prints:
  "number_toString (Decimal 15 (- 1)) = ''1.5''
   \<and> number_toString (Decimal (- 5) (- 1)) = ''-0.5''
   \<and> number_toString (Decimal 1 (- 6)) = ''0.000001''
   \<and> number_toString (Decimal 1 (- 7)) = ''1e-7''
   \<and> number_toString (Decimal 1 20) = ''100000000000000000000''
   \<and> number_toString (Decimal 1 21) = ''1e+21''
   \<and> number_toString (Decimal 123 20) = ''1.23e+22''"
  by code_simp











section \<open>Flattening a Lexical document\<close>

text \<open>
  The rooted tree of the specification: a text leaf, a line break, a node with children,
  or any other leaf.  A JSON node represents a text leaf when its type is \<^verbatim>\<open>text\<close> and
  its text is a string; otherwise it represents a node with children when it has an array
  of children; otherwise a line break when its type is \<^verbatim>\<open>linebreak\<close>; otherwise
  another leaf.  \<^verbatim>\<open>null\<close> represents nothing.
\<close>

datatype lexical_node = TextLeaf string | LineBreak | Element "lexical_node list" | OtherLeaf

definition text_leaf :: "json \<Rightarrow> string option" where
  "text_leaf v = (if get_prop v ''type'' = Some (JStr ''text'') then str_of (get_prop v ''text'') else None)"

inductive represents :: "json \<Rightarrow> lexical_node \<Rightarrow> bool" where
  is_text: "text_leaf v = Some t \<Longrightarrow> represents v (TextLeaf t)"
| is_element: "text_leaf v = None \<Longrightarrow> get_prop v ''children'' = Some (JArr js)
            \<Longrightarrow> list_all2 represents js kids \<Longrightarrow> represents v (Element kids)"
| is_linebreak: "text_leaf v = None \<Longrightarrow> arr_of (get_prop v ''children'') = None
            \<Longrightarrow> get_prop v ''type'' = Some (JStr ''linebreak'') \<Longrightarrow> represents v LineBreak"
| is_other: "v \<noteq> JNull \<Longrightarrow> text_leaf v = None \<Longrightarrow> arr_of (get_prop v ''children'') = None
            \<Longrightarrow> get_prop v ''type'' \<noteq> Some (JStr ''linebreak'') \<Longrightarrow> represents v OtherLeaf"

fun contribution :: "lexical_node \<Rightarrow> string" where
  "contribution (TextLeaf t) = t"
| "contribution LineBreak = [nl]"
| "contribution (Element kids) = concat (map contribution kids)"
| "contribution OtherLeaf = []"

text \<open>
  The runs of equal characters of a string, and the collapsing of the specification: a run
  of three or more line feeds becomes two.
\<close>

function group_runs :: "'a list \<Rightarrow> 'a list list" where
  "group_runs [] = []"
| "group_runs (x # xs) = (x # takeWhile (\<lambda>y. y = x) xs) # group_runs (dropWhile (\<lambda>y. y = x) xs)"
  by pat_completeness auto
termination
  by (relation "measure length") (auto simp: length_dropWhile_le less_Suc_eq_le)

definition squeeze_run :: "string \<Rightarrow> string" where
  "squeeze_run r = (if r \<noteq> [] \<and> hd r = nl \<and> 3 \<le> length r then [nl, nl] else r)"

definition collapse_runs :: "string \<Rightarrow> string" where
  "collapse_runs s = concat (map squeeze_run (group_runs s))"

definition flatten_tree :: "lexical_node list \<Rightarrow> string" where
  "flatten_tree kids = trim (collapse_runs (concat (map contribution kids)))"

lemma mapE_all2:
  "list_all2 (\<lambda>j k. f j = Inr (g k)) js ks \<Longrightarrow> mapE f js = Inr (map g ks)"
  by (induction js ks rule: list_all2_induct) auto

lemma get_prop_JNull [simp]: "get_prop JNull k = None"
  by simp

lemma represents_not_null: "represents v n \<Longrightarrow> v \<noteq> JNull"
  by (induction rule: represents.induct) (auto simp: text_leaf_def)

lemma lex_node_contribution: "represents v n \<Longrightarrow> lex_node v = Inr (contribution n)"
proof (induction rule: represents.induct)
  case (is_text v t)
  then have "v \<noteq> JNull" by (auto simp: text_leaf_def)
  with is_text show ?case
    by (subst lex_node.simps) (simp add: text_leaf_def)
next
  case (is_element v js kids)
  then have "v \<noteq> JNull" by auto
  moreover from is_element have "list_all2 (\<lambda>j k. lex_node j = Inr (contribution k)) js kids"
    by (auto elim: list_all2_mono)
  then have "mapE lex_node js = Inr (map contribution kids)"
    by (rule mapE_all2)
  ultimately show ?case using is_element
    by (subst lex_node.simps) (simp add: text_leaf_def arr_of_def bindE_def)
next
  case (is_linebreak v)
  then have "v \<noteq> JNull" by auto
  with is_linebreak show ?case
    by (subst lex_node.simps) (simp add: text_leaf_def)
next
  case (is_other v)
  then show ?case
    by (subst lex_node.simps) (simp add: text_leaf_def)
qed

lemma walk_contributions:
  "list_all2 represents js kids \<Longrightarrow> walk js = Inr (concat (map contribution kids))"
proof -
  assume "list_all2 represents js kids"
  then have "list_all2 (\<lambda>j k. lex_node j = Inr (contribution k)) js kids"
    by (rule list_all2_mono) (rule lex_node_contribution)
  then show ?thesis by (simp add: walk_def mapE_all2 bindE_def)
qed


lemma collapse_other_run:
  "nl \<notin> set r \<Longrightarrow> collapse_newlines (r @ rest) = r @ collapse_newlines rest"
  by (induction r) auto

lemma head_not:
  "rest = [] \<or> hd rest \<noteq> c \<Longrightarrow> takeWhile (\<lambda>y. y = c) rest = [] \<and> dropWhile (\<lambda>y. y = c) rest = rest"
  by (cases rest) auto

lemma collapse_newline_run:
  assumes r: "set r \<subseteq> {nl}" and rest: "rest = [] \<or> hd rest \<noteq> nl"
  shows "collapse_newlines (r @ rest) = (if 3 \<le> length r then [nl, nl] else r) @ collapse_newlines rest"
proof -
  from r have all: "\<forall>x\<in>set r. x = nl" by auto
  have tw: "takeWhile (\<lambda>x. x = nl) (r @ rest) = r"
    using all head_not [OF rest] by (simp add: takeWhile_append2)
  have dw: "dropWhile (\<lambda>x. x = nl) (r @ rest) = rest"
    using all head_not [OF rest] by (simp add: dropWhile_append2)
  show ?thesis
  proof (cases "3 \<le> length r")
    case True
    then obtain c cs where cs: "r @ rest = c # cs" by (cases r) auto
    from True tw dw show ?thesis
      unfolding cs [symmetric] using cs
      by (metis True collapse_newlines.simps(2) cs)
  next
    case False
    from all have rep: "replicate (length r) nl = r" by (simp add: replicate_length_same)
    from False have "length r = 0 \<or> length r = 1 \<or> length r = 2" by arith
    then consider "r = []" | "r = [nl]" | "r = [nl, nl]"
    proof (elim disjE)
      assume "length r = 0"
      then have "r = []" by simp
      then show ?thesis by (rule that(1))
    next
      assume l: "length r = 1"
      from rep have "r = [nl]" unfolding l by simp
      then show ?thesis by (rule that(2))
    next
      assume l: "length r = 2"
      from rep have "r = [nl, nl]" unfolding l by (simp add: numeral_2_eq_2)
      then show ?thesis by (rule that(3))
    qed
    then show ?thesis
    proof cases
      case 1
      then show ?thesis by simp
    next
      case 2
      with tw have "takeWhile (\<lambda>x. x = nl) (nl # rest) = [nl]" by simp
      with 2 show ?thesis by simp
    next
      case 3
      with tw have a: "takeWhile (\<lambda>x. x = nl) (nl # nl # rest) = [nl, nl]" by simp
      then have b: "takeWhile (\<lambda>x. x = nl) (nl # rest) = [nl]" by simp
      from 3 a b show ?thesis by simp
    qed
  qed
qed

lemma run_same: "set (takeWhile (\<lambda>y. y = x) xs) \<subseteq> {x}"
proof
  fix y assume "y \<in> set (takeWhile (\<lambda>y. y = x) xs)"
  then have "y = x" by (rule set_takeWhileD [THEN conjunct2])
  then show "y \<in> {x}" by simp
qed

lemma after_run: "dropWhile (\<lambda>y. y = x) xs = [] \<or> hd (dropWhile (\<lambda>y. y = x) xs) \<noteq> x"
  using hd_dropWhile [of "\<lambda>y. y = x" xs] by blast

lemma collapse_newlines_runs: "collapse_newlines s = collapse_runs s"
proof (induction s rule: group_runs.induct)
  case 1
  then show ?case by (simp add: collapse_runs_def)
next
  case (2 x xs)
  let ?r = "x # takeWhile (\<lambda>y. y = x) xs" and ?rest = "dropWhile (\<lambda>y. y = x) xs"
  have split: "x # xs = ?r @ ?rest" by simp
  have "collapse_newlines (?r @ ?rest) = squeeze_run ?r @ collapse_newlines ?rest"
  proof (cases "x = nl")
    case True
    have "set ?r \<subseteq> {nl}" using run_same [of x xs] True by auto
    moreover have "?rest = [] \<or> hd ?rest \<noteq> nl" using after_run [of x xs] True by simp
    ultimately have "collapse_newlines (?r @ ?rest)
        = (if 3 \<le> length ?r then [nl, nl] else ?r) @ collapse_newlines ?rest"
      by (rule collapse_newline_run)
    with True show ?thesis by (simp add: squeeze_run_def)
  next
    case False
    then have "nl \<notin> set ?r" using run_same [of x xs] by auto
    then have "collapse_newlines (?r @ ?rest) = ?r @ collapse_newlines ?rest"
      by (rule collapse_other_run)
    with False show ?thesis by (simp add: squeeze_run_def)
  qed
  with 2 split show ?case by (simp add: collapse_runs_def del: collapse_newlines.simps)
qed

lemma trim_shape:
  "\<exists>before after. s = before @ trim s @ after \<and> list_all is_ws before \<and> list_all is_ws after
      \<and> (trim s = [] \<or> (\<not> is_ws (hd (trim s)) \<and> \<not> is_ws (last (trim s))))"
proof -
  let ?u = "dropWhile is_ws s"
  let ?before = "takeWhile is_ws s"
  let ?after = "rev (takeWhile is_ws (rev ?u))"
  have u: "?u = trim s @ ?after"
  proof -
    have "rev (takeWhile is_ws (rev ?u) @ dropWhile is_ws (rev ?u)) = rev (rev ?u)"
      by (simp only: takeWhile_dropWhile_id)
    then have "rev (dropWhile is_ws (rev ?u)) @ rev (takeWhile is_ws (rev ?u)) = ?u"
      by (simp only: rev_append rev_rev_ident)
    then show ?thesis by (simp only: trim_def)
  qed
  have s: "s = ?before @ trim s @ ?after"
    using u takeWhile_dropWhile_id [of is_ws s] by metis
  have b: "list_all is_ws ?before" by (simp add: list_all_iff) (meson set_takeWhileD)
  have a: "list_all is_ws ?after" by (simp add: list_all_iff) (meson set_takeWhileD)
  have ends: "trim s = [] \<or> (\<not> is_ws (hd (trim s)) \<and> \<not> is_ws (last (trim s)))"
  proof (cases "trim s = []")
    case True
    then show ?thesis by simp
  next
    case False
    then have ne: "dropWhile is_ws (rev ?u) \<noteq> []" by (simp add: trim_def)
    then have "\<not> is_ws (hd (dropWhile is_ws (rev ?u)))" by (rule hd_dropWhile)
    then have l: "\<not> is_ws (last (trim s))" using ne by (simp add: trim_def last_rev)
    from False u have "?u \<noteq> []" by (metis Nil_is_append_conv)
    then have "\<not> is_ws (hd ?u)" by (rule hd_dropWhile)
    moreover from False u have "hd ?u = hd (trim s)" by (metis hd_append2)
    ultimately show ?thesis using l by simp
  qed
  from s b a ends show ?thesis by blast
qed


text \<open>
  Claim C8.  Flattening a Lexical document goes depth-first through the children of the
  root: a text leaf gives its text, a line break one line feed, a node with children the
  texts of its children, siblings joined with nothing between them; then every run of
  three or more line feeds becomes two and the white space at both ends is removed (the
  result of \<open>trim\<close> is the string without a prefix and a suffix of white space, and
  neither starts nor ends with white space).  A value without a root flattens to the empty
  string.
\<close>

theorem lexical_flattening:
  "(get_prop v ''root'' = Some root \<and> get_prop root ''children'' = Some (JArr js)
      \<and> list_all2 represents js kids
      \<longrightarrow> lexicalToPlain (Some v) = Inr (flatten_tree kids))
   \<and> (opt_prop val ''root'' = None \<longrightarrow> lexicalToPlain val = Inr [])
   \<and> (\<exists>before after. s = before @ trim s @ after \<and> list_all is_ws before \<and> list_all is_ws after
         \<and> (trim s = [] \<or> (\<not> is_ws (hd (trim s)) \<and> \<not> is_ws (last (trim s)))))"
proof (intro conjI impI)
  assume a: "get_prop v ''root'' = Some root \<and> get_prop root ''children'' = Some (JArr js)
      \<and> list_all2 represents js kids"
  then have v: "v \<noteq> JNull" and r: "root \<noteq> JNull" by auto
  from a v have 1: "opt_prop (Some v) ''root'' = Some root"
    by (cases v) (simp_all add: opt_prop_def)
  from a r have 2: "opt_prop (Some root) ''children'' = Some (JArr js)"
    by (cases root) (simp_all add: opt_prop_def)
  from a have "walk js = Inr (concat (map contribution kids))"
    by (intro walk_contributions) simp
  with 1 2 show "lexicalToPlain (Some v) = Inr (flatten_tree kids)"
    by (simp add: lexicalToPlain_def arr_of_def bindE_def flatten_tree_def collapse_newlines_runs)
next
  assume "opt_prop val ''root'' = None"
  then show "lexicalToPlain val = Inr []"
    by (simp add: lexicalToPlain_def opt_prop_def)
next
  show "\<exists>before after. s = before @ trim s @ after \<and> list_all is_ws before \<and> list_all is_ws after
         \<and> (trim s = [] \<or> (\<not> is_ws (hd (trim s)) \<and> \<not> is_ws (last (trim s))))"
    by (rule trim_shape)
qed


definition ex_lexical_lines :: json where
  "ex_lexical_lines =
     JObj [(''root'', JObj [(''children'', JArr [JObj [(''children'',
              JArr [JObj [(''text'', JStr ''Line one''), (''type'', JStr ''text'')],
                    JObj [(''type'', JStr ''linebreak'')],
                    JObj [(''type'', JStr ''linebreak'')],
                    JObj [(''type'', JStr ''linebreak'')],
                    JObj [(''type'', JStr ''horizontalrule'')],
                    JObj [(''text'', JStr ''Line two  ''), (''type'', JStr ''text'')]]),
              (''type'', JStr ''paragraph'')]]),
           (''type'', JStr ''root'')])]"

definition ex_lines_tree :: "lexical_node list" where
  "ex_lines_tree =
     [Element [TextLeaf ''Line one'', LineBreak, LineBreak, LineBreak, OtherLeaf, TextLeaf ''Line two  '']]"

theorem lexical_flattening_witness:
  "lexicalToPlain (Some ex_lexical_lines) = Inr (flatten_tree ex_lines_tree)
   \<and> flatten_tree ex_lines_tree = ''Line one'' @ [nl, nl] @ ''Line two''
   \<and> lexicalToPlain (Some (JObj [(''type'', JStr ''root'')])) = Inr []"
proof -
  obtain root js where root: "get_prop ex_lexical_lines ''root'' = Some root"
    and js: "get_prop root ''children'' = Some (JArr js)"
    and rep: "list_all2 represents js ex_lines_tree"
  proof
    show "get_prop ex_lexical_lines ''root''
          = Some (JObj [(''children'', JArr [JObj [(''children'',
              JArr [JObj [(''text'', JStr ''Line one''), (''type'', JStr ''text'')],
                    JObj [(''type'', JStr ''linebreak'')],
                    JObj [(''type'', JStr ''linebreak'')],
                    JObj [(''type'', JStr ''linebreak'')],
                    JObj [(''type'', JStr ''horizontalrule'')],
                    JObj [(''text'', JStr ''Line two  ''), (''type'', JStr ''text'')]]),
              (''type'', JStr ''paragraph'')]]),
           (''type'', JStr ''root'')])"
      by (simp add: ex_lexical_lines_def)
    show "get_prop (JObj [(''children'', JArr [JObj [(''children'',
              JArr [JObj [(''text'', JStr ''Line one''), (''type'', JStr ''text'')],
                    JObj [(''type'', JStr ''linebreak'')],
                    JObj [(''type'', JStr ''linebreak'')],
                    JObj [(''type'', JStr ''linebreak'')],
                    JObj [(''type'', JStr ''horizontalrule'')],
                    JObj [(''text'', JStr ''Line two  ''), (''type'', JStr ''text'')]]),
              (''type'', JStr ''paragraph'')]]),
           (''type'', JStr ''root'')]) ''children''
          = Some (JArr [JObj [(''children'',
              JArr [JObj [(''text'', JStr ''Line one''), (''type'', JStr ''text'')],
                    JObj [(''type'', JStr ''linebreak'')],
                    JObj [(''type'', JStr ''linebreak'')],
                    JObj [(''type'', JStr ''linebreak'')],
                    JObj [(''type'', JStr ''horizontalrule'')],
                    JObj [(''text'', JStr ''Line two  ''), (''type'', JStr ''text'')]]),
              (''type'', JStr ''paragraph'')]])"
      by simp
    show "list_all2 represents [JObj [(''children'',
              JArr [JObj [(''text'', JStr ''Line one''), (''type'', JStr ''text'')],
                    JObj [(''type'', JStr ''linebreak'')],
                    JObj [(''type'', JStr ''linebreak'')],
                    JObj [(''type'', JStr ''linebreak'')],
                    JObj [(''type'', JStr ''horizontalrule'')],
                    JObj [(''text'', JStr ''Line two  ''), (''type'', JStr ''text'')]]),
              (''type'', JStr ''paragraph'')]] ex_lines_tree"
      unfolding ex_lines_tree_def
      by (auto intro!: represents.intros simp: text_leaf_def str_of_def arr_of_def)
  qed
  from lexical_flattening [of ex_lexical_lines root js ex_lines_tree] root js rep
  have 1: "lexicalToPlain (Some ex_lexical_lines) = Inr (flatten_tree ex_lines_tree)"
    by blast
  have 2: "flatten_tree ex_lines_tree = ''Line one'' @ [nl, nl] @ ''Line two''"
    by code_simp
  have "opt_prop (Some (JObj [(''type'', JStr ''root'')])) ''root'' = None"
    by (simp add: opt_prop_def)
  with lexical_flattening [of _ _ _ _ "Some (JObj [(''type'', JStr ''root'')])"]
  have 3: "lexicalToPlain (Some (JObj [(''type'', JStr ''root'')])) = Inr []"
    by blast
  from 1 2 3 show ?thesis by (intro conjI)
qed



section \<open>Reinjection keeps the shape of the document\<close>

text \<open>
  A node of a structured document is an object whose children, if it has any, are an array
  of such nodes.  The text leaves of a node are the nodes that pass the test of the
  dialect, in document order; its node count counts every node; its skeleton is the node
  without the text of its text leaves, all other attributes and the nesting kept.
\<close>

definition is_object :: "json \<Rightarrow> bool" where
  "is_object node = (case node of JObj kvs \<Rightarrow> True | _ \<Rightarrow> False)"

function wf_node :: "json \<Rightarrow> bool" where
  "wf_node node =
     (is_object node
      \<and> (get_prop node ''children'' = None
         \<or> (case arr_of (get_prop node ''children'') of
               Some ch \<Rightarrow> \<forall>x\<in>set ch. wf_node x
             | None \<Rightarrow> False)))"
  by pat_completeness auto
termination
  by (relation "measure size") (auto dest: arr_of_get_prop_size)

declare wf_node.simps [simp del]

function text_leaves :: "(json \<Rightarrow> bool) \<Rightarrow> json \<Rightarrow> json list" where
  "text_leaves P node =
     (if P node then [node] else [])
     @ (case arr_of (get_prop node ''children'') of
          Some ch \<Rightarrow> concat (map (text_leaves P) ch)
        | None \<Rightarrow> [])"
  by pat_completeness auto
termination
  by (relation "measure (\<lambda>(P, node). size node)") (auto dest: arr_of_get_prop_size)

declare text_leaves.simps [simp del]

function node_count :: "json \<Rightarrow> nat" where
  "node_count node =
     Suc (case arr_of (get_prop node ''children'') of
            Some ch \<Rightarrow> sum_list (map node_count ch)
          | None \<Rightarrow> 0)"
  by pat_completeness auto
termination
  by (relation "measure size") (auto dest: arr_of_get_prop_size)

declare node_count.simps [simp del]

fun del_prop :: "json \<Rightarrow> string \<Rightarrow> json" where
  "del_prop (JObj kvs) k = JObj (AList.delete k kvs)"
| "del_prop v k = v"

function skeleton :: "(json \<Rightarrow> bool) \<Rightarrow> json \<Rightarrow> json" where
  "skeleton P node =
     (let bare = (if P node then del_prop node ''text'' else node)
      in (case arr_of (get_prop node ''children'') of
            Some ch \<Rightarrow> set_prop bare ''children'' (JArr (map (skeleton P) ch))
          | None \<Rightarrow> bare))"
  by pat_completeness auto
termination
  by (relation "measure (\<lambda>(P, node). size node)") (auto dest: arr_of_get_prop_size)

declare skeleton.simps [simp del]

definition text_of :: "json \<Rightarrow> json option" where
  "text_of node = get_prop node ''text''"

text \<open>
  What both tests for a text node have in common: only an object passes, and assigning
  \<^verbatim>\<open>children\<close> or \<^verbatim>\<open>text\<close> to a node does not change whether it passes.
\<close>

definition stable_test :: "(json \<Rightarrow> bool) \<Rightarrow> bool" where
  "stable_test P =
     ((\<forall>n. P n \<longrightarrow> is_object n)
      \<and> (\<forall>n c. P (set_prop n ''children'' c) = P n)
      \<and> (\<forall>n t. P n \<longrightarrow> P (set_prop n ''text'' t)))"

definition label :: "string \<Rightarrow> nat \<Rightarrow> json" where
  "label s i = JStr (if i = 0 then s else [])"

text \<open>
  The texts the claim expects in the text leaves of the result, and the relation between
  the nodes \<open>xs\<close> of the source and the nodes \<open>ys\<close> of the result: same skeletons, same
  node counts, and the text leaves of the result (which are what \<^verbatim>\<open>findTextNodes\<close>
  collects there) carry the whole string first and the empty string afterwards.
\<close>

definition first_then_blank :: "string \<Rightarrow> nat \<Rightarrow> json option list" where
  "first_then_blank s n = (case n of 0 \<Rightarrow> [] | Suc k \<Rightarrow> Some (JStr s) # replicate k (Some (JStr [])))"

definition text_leaves_of :: "(json \<Rightarrow> bool) \<Rightarrow> json list \<Rightarrow> json list" where
  "text_leaves_of P xs = concat (map (text_leaves P) xs)"

definition reinjected :: "(json \<Rightarrow> bool) \<Rightarrow> string \<Rightarrow> json list \<Rightarrow> json list \<Rightarrow> bool" where
  "reinjected P s xs ys =
     (map (skeleton P) ys = map (skeleton P) xs
      \<and> map node_count ys = map node_count xs
      \<and> findTextNodes P (Some (JArr ys)) = Inr (text_leaves_of P ys)
      \<and> map text_of (text_leaves_of P ys) = first_then_blank s (length (text_leaves_of P xs)))"

lemma stable_lexical: "stable_test is_text_lexical"
  unfolding stable_test_def is_text_lexical_def
proof (intro conjI allI impI)
  fix n assume "get_prop n ''type'' = Some (JStr ''text'')"
  then show "is_object n" by (cases n) (auto simp: is_object_def split: if_splits)
next
  fix n c show "(get_prop (set_prop n ''children'' c) ''type'' = Some (JStr ''text'')) = (get_prop n ''type'' = Some (JStr ''text''))"
    by (cases n) (auto simp: AList.update_conv)
next
  fix n t assume "get_prop n ''type'' = Some (JStr ''text'')"
  then show "get_prop (set_prop n ''text'' t) ''type'' = Some (JStr ''text'')"
    by (cases n) (auto simp: AList.update_conv)
qed

lemma stable_slate: "stable_test is_text_slate"
  unfolding stable_test_def is_text_slate_def
proof (intro conjI allI impI)
  fix n assume "get_prop n ''text'' \<noteq> None"
  then show "is_object n" by (cases n) (auto simp: is_object_def split: if_splits)
next
  fix n c show "(get_prop (set_prop n ''children'' c) ''text'' \<noteq> None) = (get_prop n ''text'' \<noteq> None)"
    by (cases n) (auto simp: AList.update_conv)
next
  fix n t assume "get_prop n ''text'' \<noteq> None"
  then show "get_prop (set_prop n ''text'' t) ''text'' \<noteq> None"
    by (cases n) (auto simp: AList.update_conv)
qed

lemma children_obj: "arr_of (get_prop node ''children'') = Some ch \<Longrightarrow> is_object node"
  by (cases node) (auto simp: is_object_def arr_of_def split: if_splits)

lemma relabel_leaf:
  "arr_of (get_prop node ''children'') = None
   \<Longrightarrow> relabel P s i node = (if P node then set_prop node ''text'' (label s i) else node)"
  by (simp add: relabel.simps label_def)

lemma relabel_inner:
  "arr_of (get_prop node ''children'') = Some ch
   \<Longrightarrow> relabel P s i node
       = set_prop (if P node then set_prop node ''text'' (label s i) else node) ''children''
           (JArr (relabel_list P s (if P node then Suc i else i) ch))"
  by (simp add: relabel.simps label_def Let_def)

lemma children_after_text:
  "get_prop (set_prop node ''text'' t) ''children'' = get_prop node ''children''"
  by (cases node) (auto simp: AList.update_conv)

lemma children_after_children:
  "is_object node \<Longrightarrow> get_prop (set_prop node ''children'' c) ''children'' = Some c"
  by (cases node) (auto simp: AList.update_conv is_object_def)

lemma object_after_set: "is_object (set_prop node k x) = is_object node"
  by (cases node) (auto simp: is_object_def split: option.splits)

lemma relabel_children:
  "arr_of (get_prop (relabel P s i node) ''children'')
   = map_option (relabel_list P s (if P node then Suc i else i)) (arr_of (get_prop node ''children''))"
proof (cases "arr_of (get_prop node ''children'')")
  case None
  then show ?thesis by (simp add: relabel_leaf children_after_text)
next
  case (Some ch)
  then have "is_object node" by (rule children_obj)
  then have "is_object (if P node then set_prop node ''text'' (label s i) else node)"
    by (simp add: object_after_set)
  with Some show ?thesis
    by (simp add: relabel_inner children_after_children arr_of_def)
qed

lemma relabel_test: "stable_test P \<Longrightarrow> P (relabel P s i node) = P node"
  by (cases "arr_of (get_prop node ''children'')")
     (auto simp: relabel_leaf relabel_inner stable_test_def)


lemma text_after_relabel:
  assumes "stable_test P" and "P node"
  shows "text_of (relabel P s i node) = Some (label s i)"
proof -
  from assms have "is_object node" by (simp add: stable_test_def)
  then obtain kvs where "node = JObj kvs" by (cases node) (auto simp: is_object_def)
  with assms(2) show ?thesis
    by (cases "arr_of (get_prop node ''children'')")
       (auto simp: relabel_leaf relabel_inner text_of_def AList.update_conv)
qed

lemma labels_from: "map f [i ..< i + Suc m] = f i # map f [Suc i ..< Suc i + m]"
  by (simp add: upt_rec)

lemma relabel_texts:
  fixes P :: "json \<Rightarrow> bool"
  shows "stable_test P \<Longrightarrow>
           map text_of (text_leaves P (relabel P s i node))
           = map (\<lambda>j. Some (label s j)) [i ..< i + count_text P node]"
    and "stable_test P \<Longrightarrow>
           concat (map (\<lambda>x. map text_of (text_leaves P x)) (relabel_list P s i xs))
           = map (\<lambda>j. Some (label s j)) [i ..< i + sum_list (map (count_text P) xs)]"
proof (induction P s i node and P s i xs rule: relabel_relabel_list.induct)
  case (1 P s i node)
  let ?i1 = "if P node then Suc i else i"
  have kids: "(case arr_of (get_prop (relabel P s i node) ''children'') of
                 Some ch \<Rightarrow> concat (map (\<lambda>x. map text_of (text_leaves P x)) ch)
               | None \<Rightarrow> [])
              = map (\<lambda>j. Some (label s j))
                  [?i1 ..< ?i1 + (case arr_of (get_prop node ''children'') of
                                     Some ch \<Rightarrow> sum_list (map (count_text P) ch) | None \<Rightarrow> 0)]"
  proof (cases "arr_of (get_prop node ''children'')")
    case None
    then show ?thesis by (simp add: relabel_children)
  next
    case (Some ch)
    from "1.IH" [OF refl refl Some "1.prems"] Some show ?thesis
      by (simp add: relabel_children)
  qed
  have "map text_of (text_leaves P (relabel P s i node))
        = (if P node then [Some (label s i)] else [])
          @ (case arr_of (get_prop (relabel P s i node) ''children'') of
               Some ch \<Rightarrow> concat (map (\<lambda>x. map text_of (text_leaves P x)) ch)
             | None \<Rightarrow> [])"
    using "1.prems"
    by (subst text_leaves.simps)
       (auto simp: relabel_test text_after_relabel map_concat comp_def split: option.splits)
  also have "\<dots> = map (\<lambda>j. Some (label s j)) [i ..< i + count_text P node]"
    unfolding kids
    by (subst count_text.simps) (simp add: upt_rec)
  finally show ?case .
next
  case (2 P s i)
  then show ?case by simp
next
  case (3 P s i x xs)
  let ?a = "count_text P x" and ?b = "sum_list (map (count_text P) xs)"
  have "[i ..< i + (?a + ?b)] = [i ..< i + ?a] @ [i + ?a ..< i + (?a + ?b)]"
    using upt_add_eq_append [of i "i + ?a" ?b] by (simp add: add.assoc)
  with "3.IH"(1) [OF "3.prems"] "3.IH"(2) [OF "3.prems"]
  show ?case by (simp add: add.assoc)
qed


lemma relabel_skeleton:
  fixes P :: "json \<Rightarrow> bool"
  shows "stable_test P \<Longrightarrow> skeleton P (relabel P s i node) = skeleton P node"
    and "stable_test P \<Longrightarrow> map (skeleton P) (relabel_list P s i xs) = map (skeleton P) xs"
proof (induction P s i node and P s i xs rule: relabel_relabel_list.induct)
  case (1 P s i node)
  show ?case
  proof (cases "arr_of (get_prop node ''children'')")
    case None
    then have none': "arr_of (get_prop (relabel P s i node) ''children'') = None"
      by (simp add: relabel_children)
    show ?thesis
    proof (cases "P node")
      case True
      with "1.prems" have "is_object node" by (simp add: stable_test_def)
      then obtain kvs where kvs: "node = JObj kvs" by (cases node) (auto simp: is_object_def)
      from True "1.prems" have "P (relabel P s i node)" by (simp add: relabel_test)
      with None none' True kvs show ?thesis
        by (subst (1 2) skeleton.simps) (simp add: relabel_leaf AList.delete_update_same)
    next
      case False
      with None show ?thesis by (simp add: relabel_leaf)
    qed
  next
    case (Some ch)
    let ?i1 = "if P node then Suc i else i"
    from Some have "is_object node" by (rule children_obj)
    then obtain kvs where kvs: "node = JObj kvs" by (cases node) (auto simp: is_object_def)
    have some': "arr_of (get_prop (relabel P s i node) ''children'') = Some (relabel_list P s ?i1 ch)"
      using Some by (simp add: relabel_children)
    have IH: "map (skeleton P) (relabel_list P s ?i1 ch) = map (skeleton P) ch"
      by (rule "1.IH" [OF refl refl Some "1.prems"])
    have test: "P (relabel P s i node) = P node"
      using "1.prems" by (rule relabel_test)
    show ?thesis
    proof (cases "P node")
      case True
      with Some kvs have r: "relabel P s i (JObj kvs)
          = JObj (AList.update ''children'' (JArr (relabel_list P s (Suc i) ch))
                    (AList.update ''text'' (label s i) kvs))"
        by (simp add: relabel_inner)
      from True test some' IH Some kvs show ?thesis
        by (subst (1 2) skeleton.simps)
           (simp add: r AList.delete_update AList.delete_update_same)
    next
      case False
      with Some kvs have r: "relabel P s i (JObj kvs)
          = JObj (AList.update ''children'' (JArr (relabel_list P s i ch)) kvs)"
        by (simp add: relabel_inner)
      from False test some' IH Some kvs show ?thesis
        by (subst (1 2) skeleton.simps) (simp add: r)
    qed
  qed
next
  case (2 P s i)
  then show ?case by simp
next
  case (3 P s i x xs)
  then show ?case by simp
qed

lemma relabel_node_count:
  fixes P :: "json \<Rightarrow> bool"
  shows "node_count (relabel P s i node) = node_count node"
    and "map node_count (relabel_list P s i xs) = map node_count xs"
proof (induction P s i node and P s i xs rule: relabel_relabel_list.induct)
  case (1 P s i node)
  show ?case
  proof (cases "arr_of (get_prop node ''children'')")
    case None
    then show ?thesis
      by (subst (1 2) node_count.simps) (simp add: relabel_children)
  next
    case (Some ch)
    from "1.IH" [OF refl refl Some] Some show ?thesis
      by (subst (1 2) node_count.simps) (simp add: relabel_children)
  qed
next
  case (2 P s i)
  then show ?case by simp
next
  case (3 P s i x xs)
  then show ?case by simp
qed

lemma relabel_count_text:
  fixes P :: "json \<Rightarrow> bool"
  shows "stable_test P \<Longrightarrow> count_text P (relabel P s i node) = count_text P node"
    and "stable_test P \<Longrightarrow> map (count_text P) (relabel_list P s i xs) = map (count_text P) xs"
proof (induction P s i node and P s i xs rule: relabel_relabel_list.induct)
  case (1 P s i node)
  show ?case
  proof (cases "arr_of (get_prop node ''children'')")
    case None
    with "1.prems" show ?thesis
      by (subst (1 2) count_text.simps) (simp add: relabel_children relabel_test)
  next
    case (Some ch)
    from "1.IH" [OF refl refl Some "1.prems"] Some "1.prems" show ?thesis
      by (subst (1 2) count_text.simps) (simp add: relabel_children relabel_test)
  qed
next
  case (2 P s i)
  then show ?case by simp
next
  case (3 P s i x xs)
  then show ?case by simp
qed

lemma length_relabel_list: "length (relabel_list P s i xs) = length xs"
  by (induction xs arbitrary: i) auto


lemma wf_node_object: "wf_node node \<Longrightarrow> is_object node"
  by (subst (asm) wf_node.simps) simp

lemma wf_node_children:
  "wf_node node \<Longrightarrow> get_prop node ''children'' = None
     \<or> (\<exists>ch. get_prop node ''children'' = Some (JArr ch) \<and> (\<forall>x\<in>set ch. wf_node x))"
  by (subst (asm) wf_node.simps) (auto simp: arr_of_def split: option.splits json.splits)

lemma wf_text_nodes: "wf_node node \<Longrightarrow> text_nodes P node = Inr (text_leaves P node)"
proof (induction P node rule: text_nodes.induct)
  case (1 P node)
  from "1.prems" have nn: "node \<noteq> JNull"
    by (auto dest: wf_node_object simp: is_object_def)
  from wf_node_children [OF "1.prems"] show ?case
  proof
    assume none: "get_prop node ''children'' = None"
    with nn show ?thesis
      by (subst text_nodes.simps, subst text_leaves.simps)
         (simp add: iterate_def bindE_def arr_of_def)
  next
    assume "\<exists>ch. get_prop node ''children'' = Some (JArr ch) \<and> (\<forall>x\<in>set ch. wf_node x)"
    then obtain ch where ch: "get_prop node ''children'' = Some (JArr ch)" and wf: "\<forall>x\<in>set ch. wf_node x"
      by blast
    from ch have it: "iterate (get_prop node ''children'') = Inr ch"
      by (simp add: iterate_def)
    have "mapE (text_nodes P) ch = Inr (map (text_leaves P) ch)"
      using "1.IH" [OF nn it] wf by (intro mapE_total) simp
    with nn ch it show ?thesis
      by (subst text_nodes.simps, subst text_leaves.simps)
         (simp add: bindE_def arr_of_def)
  qed
qed

lemma wf_findTextNodes:
  "list_all wf_node xs \<Longrightarrow> findTextNodes P (Some (JArr xs)) = Inr (concat (map (text_leaves P) xs))"
proof -
  assume "list_all wf_node xs"
  then have "mapE (text_nodes P) xs = Inr (map (text_leaves P) xs)"
    by (intro mapE_total) (simp add: list_all_iff wf_text_nodes)
  then show ?thesis by (simp add: findTextNodes_def iterate_def bindE_def)
qed

lemma count_text_leaves: "count_text P node = length (text_leaves P node)"
proof (induction P node rule: count_text.induct)
  case (1 P node)
  show ?case
  proof (cases "arr_of (get_prop node ''children'')")
    case None
    then show ?thesis
      by (subst count_text.simps, subst text_leaves.simps) simp
  next
    case (Some ch)
    with "1.IH" have "map (count_text P) ch = map (\<lambda>x. length (text_leaves P x)) ch"
      by simp
    then have "sum_list (map (count_text P) ch) = sum_list (map (\<lambda>x. length (text_leaves P x)) ch)"
      by (rule arg_cong)
    with Some show ?thesis
      by (subst count_text.simps, subst text_leaves.simps)
         (simp add: length_concat comp_def)
  qed
qed

lemma relabel_wf:
  fixes P :: "json \<Rightarrow> bool"
  shows "wf_node node \<Longrightarrow> wf_node (relabel P s i node)"
    and "list_all wf_node xs \<Longrightarrow> list_all wf_node (relabel_list P s i xs)"
proof (induction P s i node and P s i xs rule: relabel_relabel_list.induct)
  case (1 P s i node)
  from "1.prems" have obj: "is_object node" by (rule wf_node_object)
  from wf_node_children [OF "1.prems"] show ?case
  proof
    assume none: "get_prop node ''children'' = None"
    then have a: "arr_of (get_prop node ''children'') = None" by (simp add: arr_of_def)
    from none obj show ?thesis
      by (subst wf_node.simps) (simp add: relabel_leaf [OF a] object_after_set children_after_text)
  next
    assume "\<exists>ch. get_prop node ''children'' = Some (JArr ch) \<and> (\<forall>x\<in>set ch. wf_node x)"
    then obtain ch where ch: "get_prop node ''children'' = Some (JArr ch)" and wf: "\<forall>x\<in>set ch. wf_node x"
      by blast
    from ch have a: "arr_of (get_prop node ''children'') = Some ch" by (simp add: arr_of_def)
    from wf have "list_all wf_node ch" by (simp add: list_all_iff)
    from "1.IH" [OF refl refl a this]
    have kids: "\<forall>x\<in>set (relabel_list P s (if P node then Suc i else i) ch). wf_node x"
      by (simp add: list_all_iff)
    have o: "is_object (relabel P s i node)"
      using obj by (simp add: relabel_inner [OF a] object_after_set)
    from kids o show ?thesis
      by (subst wf_node.simps) (simp add: relabel_children a)
  qed
next
  case (2 P s i)
  then show ?case by simp
next
  case (3 P s i x xs)
  then show ?case by simp
qed


lemma labels_first_then_blank:
  "map (\<lambda>j. Some (label s j)) [0 ..< n] = first_then_blank s n"
proof (cases n)
  case 0
  then show ?thesis by (simp add: first_then_blank_def)
next
  case (Suc k)
  have "map (\<lambda>j. Some (label s j)) [Suc 0 ..< Suc k] = map (\<lambda>j. Some (JStr [])) [Suc 0 ..< Suc k]"
    by (rule map_cong) (auto simp: label_def)
  then have r: "map (\<lambda>j. Some (label s j)) [Suc 0 ..< Suc k] = replicate k (Some (JStr []))"
    by (simp only: map_replicate_const length_upt diff_Suc_Suc diff_zero)
  have e: "[0 ..< Suc k] = 0 # [Suc 0 ..< Suc k]"
    by (rule upt_conv_Cons) simp
  have "map (\<lambda>j. Some (label s j)) [0 ..< Suc k] = Some (label s 0) # replicate k (Some (JStr []))"
    by (simp only: e list.map r)
  then show ?thesis
    unfolding Suc by (simp add: first_then_blank_def label_def)
qed

lemma relabel_list_reinjected:
  assumes st: "stable_test P" and wf: "list_all wf_node xs"
  shows "reinjected P s xs (relabel_list P s 0 xs)"
proof -
  let ?ys = "relabel_list P s 0 xs"
  have 1: "map (skeleton P) ?ys = map (skeleton P) xs"
    using st by (rule relabel_skeleton(2))
  have 2: "map node_count ?ys = map node_count xs"
    by (rule relabel_node_count(2))
  have 3: "findTextNodes P (Some (JArr ?ys)) = Inr (text_leaves_of P ?ys)"
    unfolding text_leaves_of_def using relabel_wf(2) [OF wf] by (rule wf_findTextNodes)
  have "map text_of (text_leaves_of P ?ys)
        = concat (map (\<lambda>x. map text_of (text_leaves P x)) ?ys)"
    by (simp add: text_leaves_of_def map_concat comp_def)
  also have "\<dots> = map (\<lambda>j. Some (label s j)) [0 ..< 0 + sum_list (map (count_text P) xs)]"
    using st by (rule relabel_texts(2))
  also have "sum_list (map (count_text P) xs) = length (text_leaves_of P xs)"
  proof -
    have "count_text P = (\<lambda>x. length (text_leaves P x))"
      by (rule ext) (rule count_text_leaves)
    then show ?thesis by (simp add: text_leaves_of_def length_concat comp_def)
  qed
  finally have 4: "map text_of (text_leaves_of P ?ys) = first_then_blank s (length (text_leaves_of P xs))"
    by (simp add: labels_first_then_blank)
  from 1 2 3 4 show ?thesis by (simp add: reinjected_def)
qed

text \<open>
  Claim C4.  Reinjecting a string into a recognized document, a Slate array of nodes or a
  Lexical object whose root holds an array of nodes, returns a document of the same shape:
  the same number of nodes, the same nesting and the same attributes other than the text
  of the text leaves; its first text leaf, in document order, holds the whole string and
  every later one the empty string.  For Lexical only the children of the root differ
  from the source.
\<close>

theorem reinjection_keeps_shape:
  "(list_all wf_node xs \<longrightarrow>
      (\<exists>ys. translateSlateContent (JArr xs) s = Inr (JArr ys) \<and> reinjected is_text_slate s xs ys))
   \<and> (get_prop D ''root'' = Some root \<and> is_object root
        \<and> get_prop root ''children'' = Some (JArr xs) \<and> list_all wf_node xs \<longrightarrow>
      (\<exists>ys. translateLexicalContent D s
               = Inr (set_prop D ''root'' (set_prop root ''children'' (JArr ys)))
             \<and> reinjected is_text_lexical s xs ys))"
proof (intro conjI impI)
  assume wf: "list_all wf_node xs"
  have "findTextNodes is_text_slate (Some (JArr xs)) = Inr (text_leaves_of is_text_slate xs)"
    unfolding text_leaves_of_def using wf by (rule wf_findTextNodes)
  then have "translateSlateContent (JArr xs) s = Inr (JArr (relabel_list is_text_slate s 0 xs))"
    by (simp add: translateSlateContent_def arr_of_def bindE_def)
  with relabel_list_reinjected [OF stable_slate wf, of s]
  show "\<exists>ys. translateSlateContent (JArr xs) s = Inr (JArr ys) \<and> reinjected is_text_slate s xs ys"
    by blast
next
  assume a: "get_prop D ''root'' = Some root \<and> is_object root
        \<and> get_prop root ''children'' = Some (JArr xs) \<and> list_all wf_node xs"
  then have wf: "list_all wf_node xs" by simp
  from a have D: "opt_prop (Some D) ''root'' = Some root"
    by (cases D) (auto simp: opt_prop_def)
  from a have t: "truthy (Some root)" by (cases root) (auto simp: is_object_def)
  have "findTextNodes is_text_lexical (Some (JArr xs)) = Inr (text_leaves_of is_text_lexical xs)"
    unfolding text_leaves_of_def using wf by (rule wf_findTextNodes)
  with a D t have "translateLexicalContent D s
      = Inr (set_prop D ''root'' (set_prop root ''children'' (JArr (relabel_list is_text_lexical s 0 xs))))"
    by (simp add: translateLexicalContent_def arr_of_def bindE_def)
  with relabel_list_reinjected [OF stable_lexical wf, of s]
  show "\<exists>ys. translateLexicalContent D s
               = Inr (set_prop D ''root'' (set_prop root ''children'' (JArr ys)))
             \<and> reinjected is_text_lexical s xs ys"
    by blast
qed



definition ex_slate_nodes :: "json list" where
  "ex_slate_nodes =
     [JObj [(''type'', JStr ''p''),
            (''children'', JArr [JObj [(''text'', JStr ''Hi '')],
                                 JObj [(''text'', JStr ''there''), (''bold'', JBool True)]])],
      JObj [(''type'', JStr ''p''), (''children'', JArr [JObj [(''text'', JStr ''!'')]])]]"

definition ex_slate_result :: "json list" where
  "ex_slate_result =
     [JObj [(''type'', JStr ''p''),
            (''children'', JArr [JObj [(''text'', JStr ''Salut'')],
                                 JObj [(''text'', JStr []), (''bold'', JBool True)]])],
      JObj [(''type'', JStr ''p''), (''children'', JArr [JObj [(''text'', JStr [])]])]]"

definition ex_lexical_root :: json where
  "ex_lexical_root =
     JObj [(''type'', JStr ''root''),
        (''children'', JArr [JObj [(''type'', JStr ''paragraph''),
           (''children'', JArr [JObj [(''type'', JStr ''text''), (''text'', JStr ''Hello ''), (''format'', JNum (Decimal 0 0))],
                                JObj [(''type'', JStr ''text''), (''text'', JStr ''world''), (''format'', JNum (Decimal 1 0))]])]])]"

definition ex_lexical_nodes :: "json list" where
  "ex_lexical_nodes =
     [JObj [(''type'', JStr ''paragraph''),
           (''children'', JArr [JObj [(''type'', JStr ''text''), (''text'', JStr ''Hello ''), (''format'', JNum (Decimal 0 0))],
                                JObj [(''type'', JStr ''text''), (''text'', JStr ''world''), (''format'', JNum (Decimal 1 0))]])]]"

definition ex_lexical_result :: "json list" where
  "ex_lexical_result =
     [JObj [(''type'', JStr ''paragraph''),
           (''children'', JArr [JObj [(''type'', JStr ''text''), (''text'', JStr ''Bonjour le monde''), (''format'', JNum (Decimal 0 0))],
                                JObj [(''type'', JStr ''text''), (''text'', JStr []), (''format'', JNum (Decimal 1 0))]])]]"

theorem reinjection_keeps_shape_witness:
  "list_all wf_node ex_slate_nodes
   \<and> translateSlateContent (JArr ex_slate_nodes) ''Salut'' = Inr (JArr ex_slate_result)
   \<and> reinjected is_text_slate ''Salut'' ex_slate_nodes ex_slate_result
   \<and> get_prop ex_lexical ''root'' = Some ex_lexical_root
   \<and> get_prop ex_lexical_root ''children'' = Some (JArr ex_lexical_nodes)
   \<and> list_all wf_node ex_lexical_nodes
   \<and> translateLexicalContent ex_lexical ''Bonjour le monde''
       = Inr (set_prop ex_lexical ''root'' (set_prop ex_lexical_root ''children'' (JArr ex_lexical_result)))
   \<and> reinjected is_text_lexical ''Bonjour le monde'' ex_lexical_nodes ex_lexical_result"
proof -
  have wf1: "list_all wf_node ex_slate_nodes" by code_simp
  have run1: "translateSlateContent (JArr ex_slate_nodes) ''Salut'' = Inr (JArr ex_slate_result)"
    by code_simp
  from reinjection_keeps_shape [where xs = ex_slate_nodes and s = "''Salut''"] wf1 run1
  have shape1: "reinjected is_text_slate ''Salut'' ex_slate_nodes ex_slate_result"
    by auto
  have root: "get_prop ex_lexical ''root'' = Some ex_lexical_root" by code_simp
  have obj: "is_object ex_lexical_root" by code_simp
  have kids: "get_prop ex_lexical_root ''children'' = Some (JArr ex_lexical_nodes)" by code_simp
  have wf2: "list_all wf_node ex_lexical_nodes" by code_simp
  have run2: "translateLexicalContent ex_lexical ''Bonjour le monde''
       = Inr (set_prop ex_lexical ''root'' (set_prop ex_lexical_root ''children'' (JArr ex_lexical_result)))"
    by code_simp
  have inj: "set_prop ex_lexical ''root'' (set_prop ex_lexical_root ''children'' (JArr ys))
       = set_prop ex_lexical ''root'' (set_prop ex_lexical_root ''children'' (JArr ex_lexical_result))
       \<Longrightarrow> ys = ex_lexical_result" for ys
    by (simp add: ex_lexical_def ex_lexical_root_def)
  from reinjection_keeps_shape [where xs = ex_lexical_nodes and s = "''Bonjour le monde''"
      and D = ex_lexical and root = ex_lexical_root]
    root obj kids wf2
  obtain ys where ys: "translateLexicalContent ex_lexical ''Bonjour le monde''
               = Inr (set_prop ex_lexical ''root'' (set_prop ex_lexical_root ''children'' (JArr ys)))"
      and sh: "reinjected is_text_lexical ''Bonjour le monde'' ex_lexical_nodes ys"
    by blast
  from ys run2 have "ys = ex_lexical_result" by (intro inj) simp
  with sh have shape2: "reinjected is_text_lexical ''Bonjour le monde'' ex_lexical_nodes ex_lexical_result"
    by simp
  from wf1 run1 shape1 root kids wf2 run2 shape2 show ?thesis by (intro conjI)
qed


end
